theory Spec2Isabelle
  imports Main "HOL-Library.Word" "HOL-Library.Sublist"
begin

section \<open>Data model\<close>

text \<open>
  A band sample is a 2-D grid of unsigned 16-bit reflectance values (the dtype rasterio
  returns for the product's JPEG2000 bands). A resolution stack is the 3-D array that
  \<^verbatim>\<open>np.asarray\<close> builds from a list of equally shaped samples: its shape is
  \<^verbatim>\<open>(band, row, column)\<close>, where \<^verbatim>\<open>band\<close> is the number of samples along axis 0.
  Band codes are Python strings.
\<close>

type_synonym u8 = "8 word"
type_synonym u16 = "16 word"
type_synonym grid = "u16 list list"

record ndarray =
  row :: nat
  column :: nat
  bands :: "grid list"

definition band :: "ndarray \<Rightarrow> nat" where
  "band a = length (bands a)"

definition shape :: "ndarray \<Rightarrow> nat \<times> nat \<times> nat" where
  "shape a = (band a, row a, column a)"

text \<open>The exceptions of the Python code that the model distinguishes.\<close>

datatype message =
  File_does_not_exist
  | File_does_not_have_the_correct_suffix
  | L2A_product_not_found
  | Not_a_valid_option string

datatype error =
  IndexError
  | ValueError
  | OverflowError
  | UnboundLocalError
  | SystemExit message

text \<open>
  \<^verbatim>\<open>c_arr\<close> is an array of dtype uint8 and \<^verbatim>\<open>count\<close> a Python integer. Storing an
  integer above 255 into it wraps around modulo 256 under NumPy 1.x and raises
  OverflowError under NumPy 2.x; the library generation is a parameter of the model.
\<close>

datatype numpy = NumPy1 | NumPy2

definition uint8_setitem :: "numpy \<Rightarrow> nat \<Rightarrow> error + u8" where
  "uint8_setitem np v =
     (if v < 256 then Inr (of_nat v)
      else (case np of NumPy1 \<Rightarrow> Inr (of_nat v) | NumPy2 \<Rightarrow> Inl OverflowError))"

definition zeros :: "nat \<Rightarrow> nat \<Rightarrow> nat \<Rightarrow> ndarray" where
  "zeros b r c = \<lparr>row = r, column = c, bands = replicate b (replicate r (replicate c 0))\<rparr>"

section \<open>The band sorter: \<^verbatim>\<open>stack_sort\<close> of utils.py\<close>

text \<open>
  \<^verbatim>\<open>stack_sort\<close> unpacks \<^verbatim>\<open>stack_array.shape\<close> into three names, so its argument is a
  3-D array; an array of another dimension makes that line raise ValueError, which the
  model of the processors accounts for where the array is built (\<open>asarray\<close> below).
\<close>

text \<open>
  The \<^verbatim>\<open>while\<close> loop of \<^verbatim>\<open>stack_sort\<close>. \<open>count\<close> scans \<open>code_list\<close> for the code
  \<open>sorted_list ! count_sort\<close>; on a match the position is stored in \<open>c_arr\<close>, the next
  target is taken and the scan restarts at 0. Reading a list past its end raises
  IndexError.
\<close>

function while_loop ::
  "numpy \<Rightarrow> string list \<Rightarrow> string list \<Rightarrow> u8 list \<Rightarrow> nat \<Rightarrow> nat \<Rightarrow> error + u8 list" where
  "while_loop np code_list sorted_list c_arr count count_sort =
     (if count_sort \<noteq> length code_list then
        (if length code_list \<le> count then Inl IndexError
         else if length sorted_list \<le> count_sort then Inl IndexError
         else if code_list ! count = sorted_list ! count_sort then
           (if length c_arr \<le> count_sort then Inl IndexError
            else (case uint8_setitem np count of
                    Inl e \<Rightarrow> Inl e
                  | Inr v \<Rightarrow>
                      while_loop np code_list sorted_list (c_arr[count_sort := v]) 0
                        (count_sort + 1)))
         else while_loop np code_list sorted_list c_arr (count + 1) count_sort)
      else Inr c_arr)"
  by pat_completeness auto
termination
  by (relation "measures [\<lambda>(np, cl, sl, ca, c, cs). length ca - cs,
                          \<lambda>(np, cl, sl, ca, c, cs). length cl - c]") auto

declare while_loop.simps [simp del]

text \<open>
  The \<^verbatim>\<open>for\<close> loop of \<^verbatim>\<open>stack_sort\<close> over \<^verbatim>\<open>range(0, len_list_bands)\<close>: sample
  \<open>c_arr ! sorted_band\<close> of the input is copied into slot \<open>sorted_band\<close> of the result.
\<close>

fun for_loop :: "ndarray \<Rightarrow> u8 list \<Rightarrow> nat list \<Rightarrow> grid list \<Rightarrow> error + grid list" where
  "for_loop stack_array c_arr [] stack_sorted = Inr stack_sorted"
| "for_loop stack_array c_arr (sorted_band # rest) stack_sorted =
     (if length c_arr \<le> sorted_band then Inl IndexError
      else if band stack_array \<le> unat (c_arr ! sorted_band) then Inl IndexError
      else if length stack_sorted \<le> sorted_band then Inl IndexError
      else for_loop stack_array c_arr rest
             (stack_sorted[sorted_band := bands stack_array ! unat (c_arr ! sorted_band)]))"

definition stack_sort ::
  "numpy \<Rightarrow> ndarray \<Rightarrow> string list \<Rightarrow> string list \<Rightarrow> error + ndarray" where
  "stack_sort np stack_array code_list sorted_list =
     (let stack_sorted = zeros (band stack_array) (row stack_array) (column stack_array);
          len_list_bands = length code_list;
          c_arr = replicate len_list_bands 0
      in case while_loop np code_list sorted_list c_arr 0 0 of
           Inl e \<Rightarrow> Inl e
         | Inr c_arr' \<Rightarrow>
             (case for_loop stack_array c_arr' [0..<len_list_bands] (bands stack_sorted) of
                Inl e \<Rightarrow> Inl e
              | Inr bs \<Rightarrow> Inr (stack_sorted\<lparr>bands := bs\<rparr>)))"

text \<open>The position of the first occurrence of a code (the length of the list if absent).\<close>

fun first_index :: "'a list \<Rightarrow> 'a \<Rightarrow> nat" where
  "first_index [] x = 0"
| "first_index (y # ys) x = (if y = x then 0 else Suc (first_index ys x))"

section \<open>The cross-resolution merge of processors.py\<close>

text \<open>
  \<^verbatim>\<open>a[i:j]\<close> along axis 0 (for \<open>0 \<le> i \<le> j\<close>): a slice past the end of the array is
  shorter or empty, never an error.
\<close>

definition slice :: "ndarray \<Rightarrow> nat \<Rightarrow> nat \<Rightarrow> ndarray" where
  "slice a i j = a\<lparr>bands := take (j - i) (drop i (bands a))\<rparr>"

text \<open>
  \<^verbatim>\<open>np.concatenate(arrays, axis=0)\<close>: the arrays must agree in every dimension but the
  first, and there must be one at least; otherwise ValueError.
\<close>

definition concatenate :: "ndarray list \<Rightarrow> error + ndarray" where
  "concatenate arrays =
     (case arrays of
        [] \<Rightarrow> Inl ValueError
      | a # rest \<Rightarrow>
          if list_all (\<lambda>b. row b = row a \<and> column b = column a) rest
          then Inr \<lparr>row = row a, column = column a, bands = concat (map bands arrays)\<rparr>
          else Inl ValueError)"

text \<open>The array \<^verbatim>\<open>stack\<close> that \<^verbatim>\<open>processor_all\<close> assembles (lines 242 to 258).\<close>

definition merged_stack :: "ndarray \<Rightarrow> ndarray \<Rightarrow> ndarray \<Rightarrow> error + ndarray" where
  "merged_stack stack_10m_sorted data_20m data_60m =
     concatenate
       [slice data_60m 0 1,
        slice stack_10m_sorted 0 1,
        slice stack_10m_sorted 1 2,
        slice stack_10m_sorted 2 3,
        slice data_20m 0 1,
        slice data_20m 1 2,
        slice data_20m 2 3,
        slice stack_10m_sorted 3 4,
        slice data_20m 5 6,
        slice data_60m 1 2,
        slice data_20m 3 4,
        slice data_20m 4 5]"

text \<open>
  The output sequence as the specification words it: the 60m stack's band 1, three 10m
  bands, three 20m bands, the remaining 10m band, the remaining 20m bands, the remaining
  60m band.
\<close>

definition stated_sequence :: "ndarray \<Rightarrow> ndarray \<Rightarrow> ndarray \<Rightarrow> error + ndarray" where
  "stated_sequence stack_10m_sorted data_20m data_60m =
     concatenate
       [slice data_60m 0 1,
        slice stack_10m_sorted 0 3,
        slice data_20m 0 3,
        slice stack_10m_sorted 3 4,
        slice data_20m 3 6,
        slice data_60m 1 2]"

text \<open>Three one-pixel stacks whose pixel is the band number (138 = 0x8A for band 8A).\<close>

definition tiny_10m :: ndarray where
  "tiny_10m = \<lparr>row = 1, column = 1, bands = [[[2]], [[3]], [[4]], [[8]]]\<rparr>"

definition tiny_20m :: ndarray where
  "tiny_20m = \<lparr>row = 1, column = 1, bands = [[[5]], [[6]], [[7]], [[11]], [[12]], [[138]]]\<rparr>"

definition tiny_60m :: ndarray where
  "tiny_60m = \<lparr>row = 1, column = 1, bands = [[[1]], [[9]]]\<rparr>"

text \<open>A stack of 257 one-pixel samples with pairwise distinct two-character codes.\<close>

definition wide_code :: "nat \<Rightarrow> string" where
  "wide_code n = [''ABCDEFGHIJKLMNOPQ'' ! (n div 16), ''ABCDEFGHIJKLMNOP'' ! (n mod 16)]"

definition wide_codes :: "string list" where
  "wide_codes = map wide_code [0..<257]"

definition wide_sorted :: "string list" where
  "wide_sorted = rotate 256 wide_codes"

definition wide_sample :: "nat \<Rightarrow> grid" where
  "wide_sample n = [[of_nat n]]"

definition wide_stack :: ndarray where
  "wide_stack = \<lparr>row = 1, column = 1, bands = map wide_sample [0..<257]\<rparr>"

section \<open>The processors of processors.py\<close>

subsection \<open>Strings and paths\<close>

text \<open>Python's \<^verbatim>\<open>sub in s\<close> on strings: \<open>sub\<close> occurs in \<open>s\<close> as a substring.\<close>

fun contains :: "string \<Rightarrow> string \<Rightarrow> bool" where
  "contains sub [] = (sub = [])"
| "contains sub (c # s) = (prefix sub (c # s) \<or> contains sub s)"

text \<open>
  \<^verbatim>\<open>PurePath.suffix\<close> of pathlib, on the final component of a path: the part from the
  last dot on, if that dot is neither the first nor the last character.
\<close>

definition suffix_of :: "string \<Rightarrow> string" where
  "suffix_of name =
     (let tail = takeWhile (\<lambda>c. c \<noteq> CHR ''.'') (rev name)
      in if length tail = length name then []
         else (let i = length name - length tail - 1
               in if 0 < i \<and> i < length name - 1 then drop i name else []))"

text \<open>
  The matching of a name against a glob pattern, as pathlib does it for one path
  component: \<open>*\<close> stands for any run of characters, \<open>?\<close> for one character, any other
  character for itself (bracket expressions are not modelled; the pattern of the
  processors has none). pathlib compares case-sensitively on POSIX and ignores case on
  Windows.
\<close>

definition normcase :: "char \<Rightarrow> char" where
  "normcase c =
     (case map_of (zip ''ABCDEFGHIJKLMNOPQRSTUVWXYZ'' ''abcdefghijklmnopqrstuvwxyz'') c of
        None \<Rightarrow> c
      | Some l \<Rightarrow> l)"

definition same_char :: "bool \<Rightarrow> char \<Rightarrow> char \<Rightarrow> bool" where
  "same_char case_sensitive p c = (if case_sensitive then p = c else normcase p = normcase c)"

fun fnmatch :: "bool \<Rightarrow> string \<Rightarrow> string \<Rightarrow> bool" where
  "fnmatch cs [] name = (name = [])"
| "fnmatch cs (p # ps) [] = (p = CHR ''*'' \<and> fnmatch cs ps [])"
| "fnmatch cs (p # ps) (c # name) =
     (if p = CHR ''*'' then fnmatch cs ps (c # name) \<or> fnmatch cs (p # ps) name
      else if p = CHR ''?'' then fnmatch cs ps name
      else same_char cs p c \<and> fnmatch cs ps name)"

subsection \<open>The world outside the program\<close>

text \<open>A single-band raster file as \<^verbatim>\<open>src.read(1)\<close> returns it: a 2-D array.\<close>

record raster =
  height :: nat
  width :: nat
  pixels :: grid

datatype resampling = nearest | bilinear | cubic

text \<open>
  What the file system and the raster library answer during one run. The affine
  transforms are values of a type \<open>'t\<close> that the program only compares for equality.
\<close>

record 't world =
  numpy_generation :: numpy
  case_sensitive :: bool
  path_exists :: bool
  product_name :: string
  output_folder_exists :: bool
  granule_tree :: "string list"
  files_10m :: "(string \<times> raster) list"
  files_20m :: "(string \<times> raster) list"
  files_60m :: "(string \<times> raster) list"
  upsample :: "resampling \<Rightarrow> nat \<Rightarrow> grid \<Rightarrow> grid"
  transform_20m :: 't
  transform_60m :: 't

text \<open>The places the program writes to, and what it does to them.\<close>

datatype location = GTIFF_PRODUCT | TEMP | Temp_10m | Temp_20m | Temp_60m | Product

datatype event =
  Extractall
  | Rmtree location
  | Mkdir location
  | Open_w location nat
  | Write location ndarray
  | Build_overviews location
  | Pam_xml ndarray

text \<open>
  A run is the list of effects performed so far with either the exception that stopped
  it or a value.
\<close>

type_synonym 'a run = "event list \<times> (error + 'a)"

definition return :: "'a \<Rightarrow> 'a run" where
  "return x = ([], Inr x)"

definition raise :: "error \<Rightarrow> 'a run" where
  "raise e = ([], Inl e)"

definition emit :: "event \<Rightarrow> unit run" where
  "emit ev = ([ev], Inr ())"

definition lift :: "error + 'a \<Rightarrow> 'a run" where
  "lift r = ([], r)"

definition and_then :: "'a run \<Rightarrow> ('a \<Rightarrow> 'b run) \<Rightarrow> 'b run" where
  "and_then m f =
     (case m of
        (t, Inl e) \<Rightarrow> (t, Inl e)
      | (t, Inr x) \<Rightarrow> (case f x of (t', r) \<Rightarrow> (t @ t', r)))"

subsection \<open>\<^verbatim>\<open>check_path_validity\<close> of utils.py\<close>

definition check_path_validity :: "'t world \<Rightarrow> unit run" where
  "check_path_validity w =
     (if \<not> path_exists w then raise (SystemExit File_does_not_exist)
      else if suffix_of (product_name w) \<notin> set [''.zip'', ''.SAFE'']
      then raise (SystemExit File_does_not_have_the_correct_suffix)
      else if suffix_of (product_name w) = ''.zip'' then emit Extractall
      else return ())"

subsection \<open>The steps of the processors\<close>

text \<open>Lines 39 to 47: the output folder.\<close>

definition output_folder :: "'t world \<Rightarrow> string option \<Rightarrow> unit run" where
  "output_folder w output_path =
     (case output_path of
        Some p \<Rightarrow> return ()
      | None \<Rightarrow>
          and_then (if output_folder_exists w then emit (Rmtree GTIFF_PRODUCT) else return ())
            (\<lambda>_. emit (Mkdir GTIFF_PRODUCT)))"

text \<open>
  Lines 53 to 65: \<^verbatim>\<open>rglob\<close> yields the paths below GRANULE whose name matches the
  pattern; the first is taken (IndexError if there is none) and its name is tested for
  the substring.
\<close>

definition rglob :: "'t world \<Rightarrow> string \<Rightarrow> string list" where
  "rglob w pattern = filter (fnmatch (case_sensitive w) pattern) (granule_tree w)"

definition find_granule :: "'t world \<Rightarrow> string run" where
  "find_granule w =
     (case rglob w ''*L2A*'' of
        [] \<Rightarrow> raise IndexError
      | granule # _ \<Rightarrow>
          if contains ''L2A'' granule then return granule
          else raise (SystemExit L2A_product_not_found))"

text \<open>
  Lines 61 to 121: of the \<^verbatim>\<open>.jp2\<close> files of a folder, those whose name contains one of
  the wanted band tags are read; the code of each is \<^verbatim>\<open>name[24:26]\<close>.
\<close>

definition band_names :: "(string \<times> raster) list \<Rightarrow> (string \<times> raster) list" where
  "band_names files = filter (\<lambda>(name, r). suffix_of name = ''.jp2'') files"

definition read_bands ::
  "string list \<Rightarrow> (string \<times> raster) list \<Rightarrow> string list \<times> raster list" where
  "read_bands tags files =
     (let selected = filter (\<lambda>(name, r). list_ex (\<lambda>tag. contains tag name) tags)
                       (band_names files)
      in (map (\<lambda>(name, r). take 2 (drop 24 name)) selected, map snd selected))"

definition tags_10m :: "string list" where
  "tags_10m = [''B02_10m'', ''B03_10m'', ''B04_10m'', ''B08_10m'']"

definition tags_20m :: "string list" where
  "tags_20m = [''B05_20m'', ''B06_20m'', ''B07_20m'', ''B8A_20m'', ''B11_20m'', ''B12_20m'']"

definition tags_60m :: "string list" where
  "tags_60m = [''B01_60m'', ''B09_60m'', ''B10_60m'']"

text \<open>
  \<^verbatim>\<open>np.asarray\<close> of the list of samples. Only equally shaped samples, one at least,
  make a 3-D array; for anything else the unpacking of \<^verbatim>\<open>stack_array.shape\<close> into
  three names at the head of \<^verbatim>\<open>stack_sort\<close> (or \<^verbatim>\<open>np.asarray\<close> itself) raises
  ValueError.
\<close>

definition asarray :: "raster list \<Rightarrow> error + ndarray" where
  "asarray stack_list =
     (case stack_list of
        [] \<Rightarrow> Inl ValueError
      | r # rest \<Rightarrow>
          if list_all (\<lambda>r'. height r' = height r \<and> width r' = width r) rest
          then Inr \<lparr>row = height r, column = width r, bands = map pixels stack_list\<rparr>
          else Inl ValueError)"

definition sorted_list_10m :: "string list" where
  "sorted_list_10m = [''02'', ''03'', ''04'', ''08'']"

definition sorted_list_20m :: "string list" where
  "sorted_list_20m = [''05'', ''06'', ''07'', ''11'', ''12'', ''8A'']"

definition sorted_list_60m :: "string list" where
  "sorted_list_60m = [''01'', ''09'']"

definition sort_tier ::
  "'t world \<Rightarrow> string list \<Rightarrow> (string \<times> raster) list \<Rightarrow> string list \<Rightarrow> ndarray run" where
  "sort_tier w tags files sorted_list =
     (case read_bands tags files of
        (code_list, stack_list) \<Rightarrow>
          lift (case asarray stack_list of
                  Inl e \<Rightarrow> Inl e
                | Inr stack_array \<Rightarrow>
                    stack_sort (numpy_generation w) stack_array code_list sorted_list))"

text \<open>
  \<^verbatim>\<open>rasterio.open(path, "w", count=n)\<close> creates the file; \<^verbatim>\<open>dst.write(array)\<close> raises
  ValueError unless the array has \<open>n\<close> bands.
\<close>

definition write_raster :: "location \<Rightarrow> nat \<Rightarrow> ndarray \<Rightarrow> unit run" where
  "write_raster path n array =
     and_then (emit (Open_w path n))
       (\<lambda>_. if band array \<noteq> n then raise ValueError else emit (Write path array))"

text \<open>Lines 200 to 207.\<close>

definition resampling_of :: "string \<Rightarrow> resampling run" where
  "resampling_of resample =
     (if resample = ''nearest'' then return nearest
      else if resample = ''bilinear'' then return bilinear
      else if resample = ''cubic'' then return cubic
      else raise (SystemExit (Not_a_valid_option resample)))"

text \<open>
  Lines 209 to 237: a temporary stack is read back at \<open>scale_factor\<close> times its height
  and width, with as many bands as the file has.
\<close>

definition read_resampled :: "'t world \<Rightarrow> resampling \<Rightarrow> nat \<Rightarrow> ndarray \<Rightarrow> ndarray" where
  "read_resampled w res scale_factor a =
     \<lparr>row = row a * scale_factor, column = column a * scale_factor,
      bands = map (upsample w res scale_factor) (bands a)\<rparr>"

text \<open>
  Lines 33 to 193 of \<^verbatim>\<open>processor_all\<close>: the path is checked, the folders are made,
  the granule is found, the bands of each tier are read and sorted, and the three sorted
  stacks are saved in the temporary folder.
\<close>

definition save_stacks ::
  "'t world \<Rightarrow> string option \<Rightarrow> (ndarray \<times> ndarray \<times> ndarray) run" where
  "save_stacks w output_path =
     and_then (check_path_validity w) (\<lambda>_.
     and_then (output_folder w output_path) (\<lambda>_.
     and_then (emit (Mkdir TEMP)) (\<lambda>_.
     and_then (find_granule w) (\<lambda>granule.
     and_then (sort_tier w tags_10m (files_10m w) sorted_list_10m) (\<lambda>stack_10m_sorted.
     and_then (sort_tier w tags_20m (files_20m w) sorted_list_20m) (\<lambda>stack_20m_sorted.
     and_then (sort_tier w tags_60m (files_60m w) sorted_list_60m) (\<lambda>stack_60m_sorted.
     and_then (write_raster Temp_10m 4 stack_10m_sorted) (\<lambda>_.
     and_then (write_raster Temp_20m 6 stack_20m_sorted) (\<lambda>_.
     and_then (write_raster Temp_60m 2 stack_60m_sorted) (\<lambda>_.
     return (stack_10m_sorted, stack_20m_sorted, stack_60m_sorted)))))))))))"

text \<open>
  Lines 33 to 237 of \<^verbatim>\<open>processor_all\<close>: everything before the merge. The result is
  \<^verbatim>\<open>stack_10m_sorted\<close>, \<^verbatim>\<open>data_20m\<close> and \<^verbatim>\<open>data_60m\<close>.
\<close>

definition prepare_all ::
  "'t world \<Rightarrow> string option \<Rightarrow> string \<Rightarrow> (ndarray \<times> ndarray \<times> ndarray) run" where
  "prepare_all w output_path resample =
     and_then (save_stacks w output_path)
       (\<lambda>(stack_10m_sorted, stack_20m_sorted, stack_60m_sorted).
     and_then (resampling_of resample) (\<lambda>res.
     return (stack_10m_sorted,
             read_resampled w res 2 stack_20m_sorted,
             read_resampled w res 6 stack_60m_sorted)))"

text \<open>
  Lines 239 to 258: \<^verbatim>\<open>stack\<close> is assigned only when the two transforms are equal;
  otherwise the name stays unbound (\<open>None\<close>).
\<close>

definition merge_step ::
  "'t world \<Rightarrow> ndarray \<Rightarrow> ndarray \<Rightarrow> ndarray \<Rightarrow> ndarray option run" where
  "merge_step w stack_10m_sorted data_20m data_60m =
     (if transform_20m w = transform_60m w
      then lift (map_sum id Some (merged_stack stack_10m_sorted data_20m data_60m))
      else return None)"

text \<open>Reading an unbound local name raises UnboundLocalError.\<close>

definition read_stack :: "ndarray option \<Rightarrow> ndarray run" where
  "read_stack stack = (case stack of None \<Rightarrow> raise UnboundLocalError | Some s \<Rightarrow> return s)"

text \<open>Lines 275 and 276: the argument \<^verbatim>\<open>stack\<close> is evaluated, then the XML is written.\<close>

definition create_pam_xml :: "ndarray option \<Rightarrow> unit run" where
  "create_pam_xml stack = and_then (read_stack stack) (\<lambda>s. emit (Pam_xml s))"

text \<open>
  Lines 280 to 295: the product file is opened for writing with 12 bands, then
  \<^verbatim>\<open>stack\<close> is evaluated and written, then the overviews are built.
\<close>

definition export :: "nat \<Rightarrow> ndarray option \<Rightarrow> bool \<Rightarrow> unit run" where
  "export n stack pyramids =
     and_then (emit (Open_w Product n)) (\<lambda>_.
     and_then (read_stack stack) (\<lambda>s.
     and_then (if band s \<noteq> n then raise ValueError else emit (Write Product s)) (\<lambda>_.
     if pyramids then emit (Build_overviews Product) else return ())))"

definition finish_all ::
  "'t world \<Rightarrow> bool \<Rightarrow> bool \<Rightarrow> ndarray \<times> ndarray \<times> ndarray \<Rightarrow> unit run" where
  "finish_all w xml pyramids prepared =
     (case prepared of
        (stack_10m_sorted, data_20m, data_60m) \<Rightarrow>
          and_then (merge_step w stack_10m_sorted data_20m data_60m) (\<lambda>stack.
          and_then (if xml then create_pam_xml stack else return ()) (\<lambda>_.
          and_then (export 12 stack pyramids) (\<lambda>_.
          emit (Rmtree TEMP)))))"

definition processor_all ::
  "'t world \<Rightarrow> string option \<Rightarrow> string \<Rightarrow> bool \<Rightarrow> bool \<Rightarrow> unit run" where
  "processor_all w output_path resample xml pyramids =
     and_then (prepare_all w output_path resample) (finish_all w xml pyramids)"

definition processor_rgbn :: "'t world \<Rightarrow> string option \<Rightarrow> bool \<Rightarrow> bool \<Rightarrow> unit run" where
  "processor_rgbn w output_path xml pyramids =
     and_then (check_path_validity w) (\<lambda>_.
     and_then (output_folder w output_path) (\<lambda>_.
     and_then (find_granule w) (\<lambda>granule.
     and_then (sort_tier w tags_10m (files_10m w) sorted_list_10m) (\<lambda>stack_10m_sorted.
     and_then (if xml then create_pam_xml (Some stack_10m_sorted) else return ()) (\<lambda>_.
     export 4 (Some stack_10m_sorted) pyramids)))))"

text \<open>The effects that belong to the final product: its raster file and its XML sidecar.\<close>

definition touches_product :: "event \<Rightarrow> bool" where
  "touches_product ev =
     (case ev of
        Open_w path n \<Rightarrow> path = Product
      | Write path a \<Rightarrow> path = Product
      | Build_overviews path \<Rightarrow> path = Product
      | Pam_xml a \<Rightarrow> True
      | _ \<Rightarrow> False)"

subsection \<open>Worlds for demonstration\<close>

text \<open>
  A product with the four 10m bands (6 by 6 pixels), six 20m bands (3 by 3) and two 60m
  bands (1 by 1), each filled with its band number, the files met in no particular
  order among others; upsampling repeats pixels.
\<close>

definition flat :: "nat \<Rightarrow> u16 \<Rightarrow> raster" where
  "flat n v = \<lparr>height = n, width = n, pixels = replicate n (replicate n v)\<rparr>"

definition flat_stack :: "nat \<Rightarrow> u16 list \<Rightarrow> ndarray" where
  "flat_stack n vs = \<lparr>row = n, column = n, bands = map (\<lambda>v. replicate n (replicate n v)) vs\<rparr>"

definition enlarge :: "nat \<Rightarrow> grid \<Rightarrow> grid" where
  "enlarge k g = concat (map (\<lambda>r. replicate k (concat (map (replicate k) r))) g)"

definition demo_world :: "nat world" where
  "demo_world =
     \<lparr>numpy_generation = NumPy2,
      case_sensitive = True,
      path_exists = True,
      product_name = ''S2A_MSIL2A_20230101T092401_N0509_R093_T34SGH_20230101T120000.SAFE'',
      output_folder_exists = False,
      granule_tree = [''L2A_T34SGH_A039312_20230101T092401'', ''MTD_TL.xml'', ''IMG_DATA''],
      files_10m =
        [(''T34SGH_20230101T092401_B08_10m.jp2'', flat 6 8),
         (''T34SGH_20230101T092401_TCI_10m.jp2'', flat 6 0),
         (''T34SGH_20230101T092401_B02_10m.jp2'', flat 6 2),
         (''T34SGH_20230101T092401_B04_10m.jp2'', flat 6 4),
         (''T34SGH_20230101T092401_B03_10m.jp2'', flat 6 3)],
      files_20m =
        [(''T34SGH_20230101T092401_B8A_20m.jp2'', flat 3 138),
         (''T34SGH_20230101T092401_B05_20m.jp2'', flat 3 5),
         (''T34SGH_20230101T092401_B12_20m.jp2'', flat 3 12),
         (''T34SGH_20230101T092401_B02_20m.jp2'', flat 3 2),
         (''T34SGH_20230101T092401_B07_20m.jp2'', flat 3 7),
         (''T34SGH_20230101T092401_B06_20m.jp2'', flat 3 6),
         (''T34SGH_20230101T092401_B11_20m.jp2'', flat 3 11)],
      files_60m =
        [(''T34SGH_20230101T092401_B09_60m.jp2'', flat 1 9),
         (''T34SGH_20230101T092401_B01_60m.jp2'', flat 1 1)],
      upsample = (\<lambda>res. enlarge),
      transform_20m = 0,
      transform_60m = 0\<rparr>"

definition demo_saved :: "event list" where
  "demo_saved =
     [Mkdir GTIFF_PRODUCT, Mkdir TEMP,
      Open_w Temp_10m 4, Write Temp_10m (flat_stack 6 [2, 3, 4, 8]),
      Open_w Temp_20m 6, Write Temp_20m (flat_stack 3 [5, 6, 7, 11, 12, 138]),
      Open_w Temp_60m 2, Write Temp_60m (flat_stack 1 [1, 9])]"

text \<open>
  The same product where pathlib ignores case and the granule folder is named in lower
  case; with unequal transforms; and with a path that does not exist.
\<close>

definition windows_world :: "nat world" where
  "windows_world =
     demo_world\<lparr>case_sensitive := False,
                granule_tree := [''l2a_t34sgh_a039312_20230101t092401'', ''MTD_TL.xml'']\<rparr>"

definition unaligned_world :: "nat world" where
  "unaligned_world = demo_world\<lparr>transform_60m := 1\<rparr>"


section \<open>\<^verbatim>\<open>stack_sort\<close> on a store of objects\<close>

text \<open>
  Arrays and lists are objects that the caller and the function share by reference. The
  store keeps the objects of each kind in a list; a reference is a position in it, and a
  new object is appended, so that its reference is one no earlier object has.
\<close>

record store =
  ndarrays :: "ndarray list"
  uint8_arrays :: "u8 list list"
  pylists :: "string list list"

text \<open>
  The \<^verbatim>\<open>while\<close> loop, reading \<^verbatim>\<open>code_list\<close> and \<^verbatim>\<open>sorted_list\<close> through their
  references and writing the object \<^verbatim>\<open>c_arr\<close> in place.
\<close>

function while_loop_store ::
  "numpy \<Rightarrow> store \<Rightarrow> nat \<Rightarrow> nat \<Rightarrow> nat \<Rightarrow> nat \<Rightarrow> nat \<Rightarrow> error + store" where
  "while_loop_store np s code_list sorted_list c_arr count count_sort =
     (if count_sort \<noteq> length (pylists s ! code_list) then
        (if length (pylists s ! code_list) \<le> count then Inl IndexError
         else if length (pylists s ! sorted_list) \<le> count_sort then Inl IndexError
         else if pylists s ! code_list ! count = pylists s ! sorted_list ! count_sort then
           (if length (uint8_arrays s ! c_arr) \<le> count_sort then Inl IndexError
            else (case uint8_setitem np count of
                    Inl e \<Rightarrow> Inl e
                  | Inr v \<Rightarrow>
                      while_loop_store np
                        (s\<lparr>uint8_arrays :=
                             (uint8_arrays s)[c_arr := (uint8_arrays s ! c_arr)[count_sort := v]]\<rparr>)
                        code_list sorted_list c_arr 0 (count_sort + 1)))
         else while_loop_store np s code_list sorted_list c_arr (count + 1) count_sort)
      else Inr s)"
  by pat_completeness auto
termination
proof (relation "measures [\<lambda>(np, s, cl, sl, ca, c, cs). length (uint8_arrays s ! ca) - cs,
                           \<lambda>(np, s, cl, sl, ca, c, cs). length (pylists s ! cl) - c]",
       goal_cases)
  case 1
  then show ?case by simp
next
  case (2 np s code_list sorted_list c_arr count count_sort v)
  then show ?case
    by (cases "c_arr < length (uint8_arrays s)") (auto simp: list_update_beyond)
next
  case 3
  then show ?case by auto
qed

declare while_loop_store.simps [simp del]

text \<open>The \<^verbatim>\<open>for\<close> loop, writing the object \<^verbatim>\<open>stack_sorted\<close> in place.\<close>

fun for_loop_store :: "store \<Rightarrow> nat \<Rightarrow> nat \<Rightarrow> nat \<Rightarrow> nat list \<Rightarrow> error + store" where
  "for_loop_store s stack_array c_arr stack_sorted [] = Inr s"
| "for_loop_store s stack_array c_arr stack_sorted (sorted_band # rest) =
     (if length (uint8_arrays s ! c_arr) \<le> sorted_band then Inl IndexError
      else if band (ndarrays s ! stack_array) \<le> unat (uint8_arrays s ! c_arr ! sorted_band)
      then Inl IndexError
      else if band (ndarrays s ! stack_sorted) \<le> sorted_band then Inl IndexError
      else for_loop_store
             (s\<lparr>ndarrays :=
                  (ndarrays s)[stack_sorted :=
                     (ndarrays s ! stack_sorted)
                       \<lparr>bands :=
                          (bands (ndarrays s ! stack_sorted))
                            [sorted_band :=
                               bands (ndarrays s ! stack_array) !
                                 unat (uint8_arrays s ! c_arr ! sorted_band)]\<rparr>]\<rparr>)
             stack_array c_arr stack_sorted rest)"

text \<open>
  \<^verbatim>\<open>stack_sort\<close> with its arguments passed by reference: the two \<^verbatim>\<open>np.zeros\<close> calls
  allocate \<^verbatim>\<open>stack_sorted\<close> and \<^verbatim>\<open>c_arr\<close>, and the reference of \<^verbatim>\<open>stack_sorted\<close> is
  returned with the store as the call leaves it.
\<close>

definition stack_sort_store ::
  "numpy \<Rightarrow> store \<Rightarrow> nat \<Rightarrow> nat \<Rightarrow> nat \<Rightarrow> error + nat \<times> store" where
  "stack_sort_store np s stack_array code_list sorted_list =
     (let a = ndarrays s ! stack_array;
          stack_sorted = length (ndarrays s);
          s1 = s\<lparr>ndarrays := ndarrays s @ [zeros (band a) (row a) (column a)]\<rparr>;
          len_list_bands = length (pylists s1 ! code_list);
          c_arr = length (uint8_arrays s1);
          s2 = s1\<lparr>uint8_arrays := uint8_arrays s1 @ [replicate len_list_bands 0]\<rparr>
      in case while_loop_store np s2 code_list sorted_list c_arr 0 0 of
           Inl e \<Rightarrow> Inl e
         | Inr s3 \<Rightarrow>
             (case for_loop_store s3 stack_array c_arr stack_sorted [0..<len_list_bands] of
                Inl e \<Rightarrow> Inl e
              | Inr s4 \<Rightarrow> Inr (stack_sorted, s4)))"

text \<open>A store holding the 60m tier met in the order 09, 01, before and after the call.\<close>

definition demo_store :: store where
  "demo_store =
     \<lparr>ndarrays = [\<lparr>row = 1, column = 2, bands = [[[9, 90]], [[1, 10]]]\<rparr>],
      uint8_arrays = [],
      pylists = [[''09'', ''01''], [''01'', ''09'']]\<rparr>"

definition demo_store_after :: store where
  "demo_store_after =
     \<lparr>ndarrays = [\<lparr>row = 1, column = 2, bands = [[[9, 90]], [[1, 10]]]\<rparr>,
                  \<lparr>row = 1, column = 2, bands = [[[1, 10]], [[9, 90]]]\<rparr>],
      uint8_arrays = [[1, 0]],
      pylists = [[''09'', ''01''], [''01'', ''09'']]\<rparr>"

section \<open>Properties of the band sorter\<close>

lemma first_index_le: "first_index xs x \<le> length xs"
  by (induction xs) auto

lemma first_index_less: "x \<in> set xs \<Longrightarrow> first_index xs x < length xs"
  by (induction xs) auto

lemma nth_first_index: "x \<in> set xs \<Longrightarrow> xs ! first_index xs x = x"
  by (induction xs) auto

lemma before_first_index: "k < first_index xs x \<Longrightarrow> xs ! k \<noteq> x"
proof (induction xs arbitrary: k)
  case Nil
  then show ?case by simp
next
  case (Cons y ys)
  then show ?case by (cases k) (auto split: if_splits)
qed

lemma first_index_nth: "distinct xs \<Longrightarrow> k < length xs \<Longrightarrow> first_index xs (xs ! k) = k"
proof (induction xs arbitrary: k)
  case Nil
  then show ?case by simp
next
  case (Cons y ys)
  then show ?case by (cases k) auto
qed

lemma while_loop_scan:
  assumes "count \<le> first_index code_list (sorted_list ! count_sort)"
    and "sorted_list ! count_sort \<in> set code_list"
    and "count_sort < length code_list"
    and "count_sort < length sorted_list"
    and "count_sort < length c_arr"
  shows "while_loop np code_list sorted_list c_arr count count_sort =
           (case uint8_setitem np (first_index code_list (sorted_list ! count_sort)) of
              Inl e \<Rightarrow> Inl e
            | Inr v \<Rightarrow> while_loop np code_list sorted_list (c_arr[count_sort := v]) 0
                        (count_sort + 1))"
  using assms
proof (induction "first_index code_list (sorted_list ! count_sort) - count" arbitrary: count)
  case 0
  then have eq: "count = first_index code_list (sorted_list ! count_sort)" by simp
  have lt: "count < length code_list"
    unfolding eq using "0.prems"(2) by (rule first_index_less)
  have hit: "code_list ! count = sorted_list ! count_sort"
    unfolding eq using "0.prems"(2) by (rule nth_first_index)
  show ?case
    using lt hit "0.prems"(3,4,5) eq
    by (subst while_loop.simps) simp
next
  case (Suc d)
  then have less: "count < first_index code_list (sorted_list ! count_sort)" by simp
  have lt: "count < length code_list"
    using less first_index_le [of code_list "sorted_list ! count_sort"] by simp
  have miss: "code_list ! count \<noteq> sorted_list ! count_sort"
    using less by (rule before_first_index)
  have step: "while_loop np code_list sorted_list c_arr count count_sort =
                while_loop np code_list sorted_list c_arr (count + 1) count_sort"
    using lt miss Suc.prems(3,4)
    by (subst while_loop.simps) simp
  have "d = first_index code_list (sorted_list ! count_sort) - (count + 1)"
    using Suc.hyps(2) by simp
  from Suc.hyps(1) [OF this] less Suc.prems(2,3,4,5)
  show ?case unfolding step by simp
qed


lemma uint8_setitem_ok: "np = NumPy1 \<or> k < 256 \<Longrightarrow> uint8_setitem np k = Inr (of_nat k)"
  by (auto simp: uint8_setitem_def)

lemma uint8_setitem_overflow: "\<not> k < 256 \<Longrightarrow> uint8_setitem NumPy2 k = Inl OverflowError"
  by (simp add: uint8_setitem_def)

lemma while_loop_all:
  assumes "length c_arr = length code_list"
    and "count_sort \<le> length code_list"
    and "length code_list \<le> length sorted_list"
    and "\<forall>j. count_sort \<le> j \<and> j < length code_list \<longrightarrow> sorted_list ! j \<in> set code_list"
  shows "while_loop np code_list sorted_list c_arr 0 count_sort =
           (if np = NumPy1 \<or> (\<forall>j. count_sort \<le> j \<and> j < length code_list \<longrightarrow>
                                  first_index code_list (sorted_list ! j) < 256)
            then Inr (take count_sort c_arr @
                      map (\<lambda>j. of_nat (first_index code_list (sorted_list ! j)))
                        [count_sort..<length code_list])
            else Inl OverflowError)"
  using assms
proof (induction "length code_list - count_sort" arbitrary: count_sort c_arr)
  case 0
  then have "count_sort = length code_list" by simp
  then show ?case using "0.prems"(1) by (subst while_loop.simps) simp
next
  case (Suc d)
  let ?k = "first_index code_list (sorted_list ! count_sort)"
  have lt: "count_sort < length code_list" using Suc.hyps(2) by simp
  have present: "sorted_list ! count_sort \<in> set code_list"
    using Suc.prems(4) lt by simp
  have scan: "while_loop np code_list sorted_list c_arr 0 count_sort =
                (case uint8_setitem np ?k of
                   Inl e \<Rightarrow> Inl e
                 | Inr v \<Rightarrow> while_loop np code_list sorted_list (c_arr[count_sort := v]) 0
                             (count_sort + 1))"
    using present lt Suc.prems(1,3) by (intro while_loop_scan) simp_all
  show ?case
  proof (cases "np = NumPy1 \<or> ?k < 256")
    case False
    then have np2: "np = NumPy2" by (cases np) simp_all
    have "uint8_setitem np ?k = Inl OverflowError"
      using False np2 by (simp add: uint8_setitem_overflow)
    moreover have "\<not> (\<forall>j. count_sort \<le> j \<and> j < length code_list \<longrightarrow>
                         first_index code_list (sorted_list ! j) < 256)"
      using False lt by auto
    ultimately show ?thesis using scan False by simp
  next
    case True
    then have store: "uint8_setitem np ?k = Inr (of_nat ?k)" by (rule uint8_setitem_ok)
    have d: "d = length code_list - (count_sort + 1)" using Suc.hyps(2) by simp
    have ih: "while_loop np code_list sorted_list (c_arr[count_sort := of_nat ?k]) 0 (count_sort + 1) =
           (if np = NumPy1 \<or> (\<forall>j. count_sort + 1 \<le> j \<and> j < length code_list \<longrightarrow>
                                  first_index code_list (sorted_list ! j) < 256)
            then Inr (take (count_sort + 1) (c_arr[count_sort := of_nat ?k]) @
                      map (\<lambda>j. of_nat (first_index code_list (sorted_list ! j)))
                        [count_sort + 1..<length code_list])
            else Inl OverflowError)"
      using Suc.prems lt by (intro Suc.hyps(1) [OF d]) simp_all
    have cond: "(\<forall>j. count_sort + 1 \<le> j \<and> j < length code_list \<longrightarrow>
                      first_index code_list (sorted_list ! j) < 256) \<longleftrightarrow>
                (\<forall>j. count_sort \<le> j \<and> j < length code_list \<longrightarrow>
                      first_index code_list (sorted_list ! j) < 256)" if "?k < 256"
    proof
      assume h: "\<forall>j. count_sort + 1 \<le> j \<and> j < length code_list \<longrightarrow>
                      first_index code_list (sorted_list ! j) < 256"
      show "\<forall>j. count_sort \<le> j \<and> j < length code_list \<longrightarrow>
                      first_index code_list (sorted_list ! j) < 256"
      proof (intro allI impI)
        fix j assume j: "count_sort \<le> j \<and> j < length code_list"
        show "first_index code_list (sorted_list ! j) < 256"
        proof (cases "j = count_sort")
          case True
          then show ?thesis using that by simp
        next
          case False
          then show ?thesis using h j by simp
        qed
      qed
    next
      assume "\<forall>j. count_sort \<le> j \<and> j < length code_list \<longrightarrow>
                      first_index code_list (sorted_list ! j) < 256"
      then show "\<forall>j. count_sort + 1 \<le> j \<and> j < length code_list \<longrightarrow>
                      first_index code_list (sorted_list ! j) < 256" by simp
    qed
    have tk: "take (count_sort + 1) (c_arr[count_sort := of_nat ?k]) =
                take count_sort c_arr @ [of_nat ?k]"
      using lt Suc.prems(1) by (simp add: take_Suc_conv_app_nth)
    have up: "[count_sort..<length code_list] = count_sort # [count_sort + 1..<length code_list]"
      using lt by (simp add: upt_conv_Cons)
    show ?thesis
    proof (cases "np = NumPy1")
      case True
      then show ?thesis using scan store ih tk up by simp
    next
      case False
      with \<open>np = NumPy1 \<or> ?k < 256\<close> have k: "?k < 256" by simp
      show ?thesis using scan store ih tk up cond [OF k] False by simp
    qed
  qed
qed

lemma for_loop_result:
  assumes "\<forall>j\<in>set js. j < length c_arr \<and> unat (c_arr ! j) < band stack_array \<and>
                       j < length stack_sorted"
  shows "\<exists>out. for_loop stack_array c_arr js stack_sorted = Inr out \<and>
               length out = length stack_sorted \<and>
               (\<forall>j<length stack_sorted. out ! j =
                  (if j \<in> set js then bands stack_array ! unat (c_arr ! j)
                   else stack_sorted ! j))"
  using assms
proof (induction js arbitrary: stack_sorted)
  case Nil
  then show ?case by simp
next
  case (Cons i js)
  let ?s = "stack_sorted[i := bands stack_array ! unat (c_arr ! i)]"
  have "\<forall>j\<in>set js. j < length c_arr \<and> unat (c_arr ! j) < band stack_array \<and> j < length ?s"
    using Cons.prems by simp
  from Cons.IH [OF this] obtain out where
    out: "for_loop stack_array c_arr js ?s = Inr out" "length out = length ?s"
      "\<forall>j<length ?s. out ! j =
         (if j \<in> set js then bands stack_array ! unat (c_arr ! j) else ?s ! j)"
    by blast
  have "for_loop stack_array c_arr (i # js) stack_sorted = Inr out"
    using Cons.prems out(1) by simp
  moreover have "length out = length stack_sorted" using out(2) by simp
  moreover have "\<forall>j<length stack_sorted. out ! j =
                  (if j \<in> set (i # js) then bands stack_array ! unat (c_arr ! j)
                   else stack_sorted ! j)"
    using out(3) by (auto simp: nth_list_update)
  ultimately show ?case by blast
qed

lemma unat_u8_of_nat: "unat (of_nat k :: u8) = k mod 256"
  by (simp add: unat_of_nat)

text \<open>
  What the \<^verbatim>\<open>while\<close> loop leaves in \<open>c_arr\<close> when every target code is present: for
  each target, the position at which the scan from the beginning of the code list first
  meets it, as far as it fits a uint8.
\<close>

lemma while_loop_positions:
  assumes same: "length sorted_list = length code_list"
    and present: "set sorted_list \<subseteq> set code_list"
  shows "while_loop np code_list sorted_list (replicate (length code_list) 0) 0 0 =
           (if np = NumPy1 \<or> (\<forall>c\<in>set sorted_list. first_index code_list c < 256)
            then Inr (map (\<lambda>c. of_nat (first_index code_list c)) sorted_list)
            else Inl OverflowError)"
proof -
  let ?n = "length code_list"
  let ?idx = "\<lambda>c. first_index code_list c"
  have pres: "\<forall>j. 0 \<le> j \<and> j < ?n \<longrightarrow> sorted_list ! j \<in> set code_list"
    using present same by (auto simp: subset_iff)
  have cond: "(\<forall>j. 0 \<le> j \<and> j < ?n \<longrightarrow> ?idx (sorted_list ! j) < 256) \<longleftrightarrow>
              (\<forall>c\<in>set sorted_list. ?idx c < 256)"
    using same by (simp add: all_set_conv_all_nth)
  have arr: "map (\<lambda>j. of_nat (?idx (sorted_list ! j)) :: u8) [0..<?n] =
               map (\<lambda>c. of_nat (?idx c)) sorted_list"
    using same by (intro nth_equalityI) simp_all
  show ?thesis
    using while_loop_all [of "replicate ?n 0" code_list 0 sorted_list np] pres same
    unfolding cond arr by simp
qed

lemma stack_sort_result:
  assumes len: "length code_list = band stack_array"
    and same: "length sorted_list = length code_list"
    and present: "set sorted_list \<subseteq> set code_list"
  shows "stack_sort np stack_array code_list sorted_list =
           (if np = NumPy1 \<or> (\<forall>c\<in>set sorted_list. first_index code_list c < 256)
            then Inr \<lparr>row = row stack_array, column = column stack_array,
                      bands = map (\<lambda>c. bands stack_array ! (first_index code_list c mod 256))
                                sorted_list\<rparr>
            else Inl OverflowError)"
proof -
  let ?n = "length code_list"
  let ?idx = "\<lambda>c. first_index code_list c"
  let ?c_arr = "map (\<lambda>c. of_nat (?idx c) :: u8) sorted_list"
  let ?zero = "replicate (row stack_array) (replicate (column stack_array) (0::u16))"
  have pres: "\<forall>j. 0 \<le> j \<and> j < ?n \<longrightarrow> sorted_list ! j \<in> set code_list"
    using present same by (auto simp: subset_iff)
  have loop: "while_loop np code_list sorted_list (replicate ?n 0) 0 0 =
                (if np = NumPy1 \<or> (\<forall>c\<in>set sorted_list. ?idx c < 256)
                 then Inr ?c_arr else Inl OverflowError)"
    using same present by (rule while_loop_positions)
  have ok: "\<forall>j\<in>set [0..<?n]. j < length ?c_arr \<and> unat (?c_arr ! j) < band stack_array \<and>
                              j < length (replicate (band stack_array) ?zero)"
  proof
    fix j assume "j \<in> set [0..<?n]"
    then have j: "j < ?n" by simp
    then have "sorted_list ! j \<in> set code_list" using pres by simp
    then have "?idx (sorted_list ! j) < ?n" by (rule first_index_less)
    moreover have "?idx (sorted_list ! j) mod 256 \<le> ?idx (sorted_list ! j)" by simp
    ultimately have "?idx (sorted_list ! j) mod 256 < band stack_array" using len by linarith
    then show "j < length ?c_arr \<and> unat (?c_arr ! j) < band stack_array \<and>
               j < length (replicate (band stack_array) ?zero)"
      using j same len by (simp add: unat_u8_of_nat)
  qed
  from for_loop_result [OF ok] obtain out where
    out: "for_loop stack_array ?c_arr [0..<?n] (replicate (band stack_array) ?zero) = Inr out"
      "length out = band stack_array"
      "\<forall>j<band stack_array. out ! j =
         (if j \<in> set [0..<?n] then bands stack_array ! unat (?c_arr ! j)
          else replicate (band stack_array) ?zero ! j)"
    by auto
  have "out = map (\<lambda>c. bands stack_array ! (?idx c mod 256)) sorted_list"
    using out(2,3) same len by (intro nth_equalityI) (simp_all add: unat_u8_of_nat)
  then show ?thesis
    using loop out(1) by (simp add: stack_sort_def zeros_def Let_def)
qed

lemma wide_code_inj:
  assumes "i < 257" "j < 257" "wide_code i = wide_code j"
  shows "i = j"
proof -
  have d17: "distinct ''ABCDEFGHIJKLMNOPQ''" by simp
  have d16: "distinct ''ABCDEFGHIJKLMNOP''" by simp
  have hi: "''ABCDEFGHIJKLMNOPQ'' ! (i div 16) = ''ABCDEFGHIJKLMNOPQ'' ! (j div 16)"
    and lo: "''ABCDEFGHIJKLMNOP'' ! (i mod 16) = ''ABCDEFGHIJKLMNOP'' ! (j mod 16)"
    using assms(3) by (simp_all add: wide_code_def)
  have "i div 16 < length ''ABCDEFGHIJKLMNOPQ''" "j div 16 < length ''ABCDEFGHIJKLMNOPQ''"
    using assms(1,2) by simp_all
  with hi d17 have q: "i div 16 = j div 16" by (simp only: nth_eq_iff_index_eq)
  have "i mod 16 < length ''ABCDEFGHIJKLMNOP''" "j mod 16 < length ''ABCDEFGHIJKLMNOP''"
    by simp_all
  with lo d16 have r: "i mod 16 = j mod 16" by (simp only: nth_eq_iff_index_eq)
  have "i = 16 * (i div 16) + i mod 16" by simp
  also have "\<dots> = 16 * (j div 16) + j mod 16" using q r by simp
  finally show ?thesis by simp
qed

lemma distinct_wide_codes: "distinct wide_codes"
  unfolding wide_codes_def distinct_map
  by (auto intro!: inj_onI dest: wide_code_inj)

lemma length_wide_codes: "length wide_codes = 257"
  by (simp add: wide_codes_def)

lemma first_index_wide_codes: "k < 257 \<Longrightarrow> first_index wide_codes (wide_codes ! k) = k"
  using distinct_wide_codes by (simp add: first_index_nth length_wide_codes)

lemma hd_wide_sorted: "wide_sorted ! 0 = wide_codes ! 256"
  by (simp add: wide_sorted_def nth_rotate length_wide_codes)

lemma bands_wide_stack: "k < 257 \<Longrightarrow> bands wide_stack ! k = wide_sample k"
  by (simp add: wide_stack_def)

lemma wide_samples_differ: "bands wide_stack ! 0 \<noteq> bands wide_stack ! 256"
  by (simp add: bands_wide_stack wide_sample_def)

subsection \<open>Canonical order\<close>

text \<open>
  C1 (as amended): for a stack with one sample per code, whose code list is a permutation
  of the canonical list with all codes distinct, and with at most 256 codes,
  \<open>stack_sort\<close> returns, under either NumPy generation, the array of the input's shape
  whose slot \<open>i\<close> holds the input sample at the first position of the \<open>i\<close>-th canonical
  code in the code list; that is the input sample whose code equals the \<open>i\<close>-th canonical
  code. The positions are those the \<^verbatim>\<open>while\<close> loop records in \<open>c_arr\<close>, one scan from
  the beginning of the code list for each target code.
\<close>

theorem stack_sort_canonical_order:
  assumes "length code_list = band stack_array"
    and "distinct code_list"
    and "distinct sorted_list"
    and "set sorted_list = set code_list"
    and "length code_list \<le> 256"
  shows "stack_sort np stack_array code_list sorted_list =
           Inr \<lparr>row = row stack_array, column = column stack_array,
                bands = map (\<lambda>c. bands stack_array ! first_index code_list c) sorted_list\<rparr>
         \<and> (\<forall>i<length sorted_list. \<forall>k<length code_list.
               code_list ! k = sorted_list ! i \<longrightarrow>
               map (\<lambda>c. bands stack_array ! first_index code_list c) sorted_list ! i =
                 bands stack_array ! k)
         \<and> while_loop np code_list sorted_list (replicate (length code_list) 0) 0 0 =
               Inr (map (\<lambda>c. of_nat (first_index code_list c)) sorted_list)"
proof -
  have same: "length sorted_list = length code_list"
    using assms(2,3,4) by (metis distinct_card)
  have small: "first_index code_list c < 256" if "c \<in> set sorted_list" for c
    using that assms(4,5) first_index_less [of c code_list] by simp
  then have all: "\<forall>c\<in>set sorted_list. first_index code_list c < 256" by simp
  have "map (\<lambda>c. bands stack_array ! (first_index code_list c mod 256)) sorted_list =
        map (\<lambda>c. bands stack_array ! first_index code_list c) sorted_list"
    using small by simp
  then have res: "stack_sort np stack_array code_list sorted_list =
           Inr \<lparr>row = row stack_array, column = column stack_array,
                bands = map (\<lambda>c. bands stack_array ! first_index code_list c) sorted_list\<rparr>"
    using stack_sort_result [OF assms(1) same, of np] assms(4) all by simp
  have "map (\<lambda>c. bands stack_array ! first_index code_list c) sorted_list ! i =
          bands stack_array ! k"
    if "i < length sorted_list" "k < length code_list" "code_list ! k = sorted_list ! i" for i k
    using that first_index_nth [OF assms(2), of k] by simp
  moreover have "while_loop np code_list sorted_list (replicate (length code_list) 0) 0 0 =
                   Inr (map (\<lambda>c. of_nat (first_index code_list c)) sorted_list)"
    using while_loop_positions [OF same, of np] assms(4) all by simp
  ultimately show ?thesis using res by blast
qed

text \<open>The 10m tier with its files met in the order 08, 02, 04, 03.\<close>

theorem stack_sort_canonical_order_witness:
  "stack_sort NumPy2
     \<lparr>row = 1, column = 2, bands = [[[8, 80]], [[2, 20]], [[4, 40]], [[3, 30]]]\<rparr>
     [''08'', ''02'', ''04'', ''03''] [''02'', ''03'', ''04'', ''08''] =
   Inr \<lparr>row = 1, column = 2, bands = [[[2, 20]], [[3, 30]], [[4, 40]], [[8, 80]]]\<rparr>"
proof -
  have perm: "set [''02'', ''03'', ''04'', ''08''] = set [''08'', ''02'', ''04'', ''03'']"
    by auto
  show ?thesis
    using perm stack_sort_canonical_order
      [of "[''08'', ''02'', ''04'', ''03'']"
          "\<lparr>row = 1, column = 2, bands = [[[8, 80]], [[2, 20]], [[4, 40]], [[3, 30]]]\<rparr>"
          "[''02'', ''03'', ''04'', ''08'']" NumPy2]
    by (simp add: band_def)
qed

text \<open>
  Without the bound the claim fails. With 257 codes, of which the first canonical code
  sits at position 256 of the code list, the position does not fit the uint8 index array:
  NumPy 2.x raises OverflowError, and NumPy 1.x stores 0, so that output slot 0 holds
  input sample 0 and not sample 256.
\<close>

theorem stack_sort_canonical_order_counterexample:
  "length wide_codes = band wide_stack \<and> distinct wide_codes \<and> distinct wide_sorted \<and>
   set wide_sorted = set wide_codes \<and> wide_codes ! 256 = wide_sorted ! 0 \<and>
   stack_sort NumPy2 wide_stack wide_codes wide_sorted = Inl OverflowError \<and>
   map_sum id (hd \<circ> bands) (stack_sort NumPy1 wide_stack wide_codes wide_sorted) =
     Inr (bands wide_stack ! 0) \<and>
   bands wide_stack ! 0 \<noteq> bands wide_stack ! 256"
proof -
  have len: "length wide_codes = band wide_stack"
    by (simp add: band_def wide_stack_def length_wide_codes)
  have same: "length wide_sorted = length wide_codes"
    by (simp add: wide_sorted_def)
  have sub: "set wide_sorted \<subseteq> set wide_codes"
    by (simp add: wide_sorted_def)
  have mem: "wide_sorted ! 0 \<in> set wide_sorted"
    using same by (simp add: length_wide_codes)
  have big: "first_index wide_codes (wide_sorted ! 0) = 256"
    by (simp add: hd_wide_sorted first_index_wide_codes)
  have no: "\<not> (\<forall>c\<in>set wide_sorted. first_index wide_codes c < 256)"
    using mem big by force
  have ne: "wide_sorted \<noteq> []"
    using same by (auto simp: length_wide_codes)
  have np2: "stack_sort NumPy2 wide_stack wide_codes wide_sorted = Inl OverflowError"
    using stack_sort_result [OF len same sub, of NumPy2] no by simp
  have np1: "map_sum id (hd \<circ> bands) (stack_sort NumPy1 wide_stack wide_codes wide_sorted) =
               Inr (bands wide_stack ! 0)"
    using stack_sort_result [OF len same sub, of NumPy1] ne big
    by (simp add: hd_map hd_conv_nth)
  show ?thesis
    using len distinct_wide_codes same sub np2 np1 wide_samples_differ
    by (simp add: wide_sorted_def hd_wide_sorted [unfolded wide_sorted_def])
qed

subsection \<open>Sorting a sorted stack\<close>

text \<open>
  C4 (as amended): for a uint16 stack with one sample per code whose code list is the
  canonical list itself, with distinct codes and at most 256 of them, \<open>stack_sort\<close>
  returns an array equal to its input.
\<close>

theorem stack_sort_sorted_noop:
  assumes "length code_list = band stack_array"
    and "distinct code_list"
    and "length code_list \<le> 256"
  shows "stack_sort np stack_array code_list code_list = Inr stack_array"
proof -
  have small: "\<forall>c\<in>set code_list. first_index code_list c < 256"
    using assms(3) first_index_less [of _ code_list] by fastforce
  have "map (\<lambda>c. bands stack_array ! (first_index code_list c mod 256)) code_list =
          bands stack_array"
  proof (rule nth_equalityI)
    show "length (map (\<lambda>c. bands stack_array ! (first_index code_list c mod 256)) code_list) =
            length (bands stack_array)"
      using assms(1) by (simp add: band_def)
  next
    fix i
    assume "i < length (map (\<lambda>c. bands stack_array ! (first_index code_list c mod 256)) code_list)"
    then have i: "i < length code_list" by simp
    then have "first_index code_list (code_list ! i) = i"
      using assms(2) by (simp add: first_index_nth)
    moreover have "i < 256" using i assms(3) by simp
    ultimately show "map (\<lambda>c. bands stack_array ! (first_index code_list c mod 256)) code_list ! i =
                       bands stack_array ! i"
      using i by simp
  qed
  then show ?thesis
    using stack_sort_result [OF assms(1) refl, of np] small by simp
qed

text \<open>The 60m tier, already in canonical order.\<close>

theorem stack_sort_sorted_noop_witness:
  "stack_sort NumPy1
     \<lparr>row = 2, column = 1, bands = [[[1], [10]], [[9], [90]]]\<rparr> [''01'', ''09''] [''01'', ''09''] =
   Inr \<lparr>row = 2, column = 1, bands = [[[1], [10]], [[9], [90]]]\<rparr>"
  using stack_sort_sorted_noop
    [of "[''01'', ''09'']" "\<lparr>row = 2, column = 1, bands = [[[1], [10]], [[9], [90]]]\<rparr>" NumPy1]
  by (simp add: band_def)

text \<open>
  With 257 codes in canonical order the result is not the input: NumPy 2.x raises
  OverflowError at position 256, and NumPy 1.x copies sample 0 into slot 256.
\<close>

theorem stack_sort_sorted_noop_counterexample:
  "length wide_codes = band wide_stack \<and> distinct wide_codes \<and>
   stack_sort NumPy2 wide_stack wide_codes wide_codes = Inl OverflowError \<and>
   stack_sort NumPy1 wide_stack wide_codes wide_codes \<noteq> Inr wide_stack"
proof -
  have len: "length wide_codes = band wide_stack"
    by (simp add: band_def wide_stack_def length_wide_codes)
  have mem: "wide_codes ! 256 \<in> set wide_codes"
    by (simp add: length_wide_codes)
  have big: "first_index wide_codes (wide_codes ! 256) = 256"
    by (simp add: first_index_wide_codes)
  have no: "\<not> (\<forall>c\<in>set wide_codes. first_index wide_codes c < 256)"
    using mem big by force
  have np2: "stack_sort NumPy2 wide_stack wide_codes wide_codes = Inl OverflowError"
    using stack_sort_result [OF len refl, of NumPy2] no by simp
  have np1: "stack_sort NumPy1 wide_stack wide_codes wide_codes =
               Inr \<lparr>row = row wide_stack, column = column wide_stack,
                    bands = map (\<lambda>c. bands wide_stack ! (first_index wide_codes c mod 256))
                              wide_codes\<rparr>"
    using stack_sort_result [OF len refl, of NumPy1] by simp
  have "map (\<lambda>c. bands wide_stack ! (first_index wide_codes c mod 256)) wide_codes ! 256 =
          bands wide_stack ! 0"
    using big by (simp add: length_wide_codes)
  then have "map (\<lambda>c. bands wide_stack ! (first_index wide_codes c mod 256)) wide_codes \<noteq>
               bands wide_stack"
    using wide_samples_differ by metis
  then have "stack_sort NumPy1 wide_stack wide_codes wide_codes \<noteq> Inr wide_stack"
    unfolding np1 by (metis ndarray.select_convs(3) sum.inject(2))
  with len distinct_wide_codes np2 show ?thesis by simp
qed

section \<open>Properties of the merge\<close>

lemma len4: "length xs = 4 \<Longrightarrow> \<exists>a b c d. xs = [a, b, c, d]"
  by (auto simp: numeral_eq_Suc length_Suc_conv)

lemma len6: "length xs = 6 \<Longrightarrow> \<exists>a b c d e f. xs = [a, b, c, d, e, f]"
  by (auto simp: numeral_eq_Suc length_Suc_conv)

lemma len2: "length xs = 2 \<Longrightarrow> \<exists>a b. xs = [a, b]"
  by (auto simp: numeral_eq_Suc length_Suc_conv)

lemma merged_stack_bands:
  assumes "merged_stack stack_10m_sorted data_20m data_60m = Inr stack"
  shows "bands stack =
           take 1 (bands data_60m) @ take 1 (bands stack_10m_sorted) @
           take 1 (drop 1 (bands stack_10m_sorted)) @ take 1 (drop 2 (bands stack_10m_sorted)) @
           take 1 (bands data_20m) @ take 1 (drop 1 (bands data_20m)) @
           take 1 (drop 2 (bands data_20m)) @ take 1 (drop 3 (bands stack_10m_sorted)) @
           take 1 (drop 5 (bands data_20m)) @ take 1 (drop 1 (bands data_60m)) @
           take 1 (drop 3 (bands data_20m)) @ take 1 (drop 4 (bands data_20m))"
  using assms
  by (auto simp: merged_stack_def concatenate_def slice_def split: if_splits)

lemma merged_stack_returns:
  assumes "row stack_10m_sorted = row data_60m" "column stack_10m_sorted = column data_60m"
    and "row data_20m = row data_60m" "column data_20m = column data_60m"
  shows "\<exists>stack. merged_stack stack_10m_sorted data_20m data_60m = Inr stack"
  using assms by (simp add: merged_stack_def concatenate_def slice_def)

subsection \<open>The output sequence\<close>

text \<open>
  C2 (as amended): for stacks of 4, 6 and 2 bands with the same rows and columns, the
  merged array is assembled in this order: band 0 of the 60m stack; bands 0, 1, 2 of the
  10m stack; bands 0, 1, 2 of the 20m stack; band 3 of the 10m stack; band 5 of the 20m
  stack (8A); band 1 of the 60m stack (09); bands 3 and 4 of the 20m stack (11, 12) last.
\<close>

theorem merged_stack_sequence:
  assumes "band stack_10m_sorted = 4" and "band data_20m = 6" and "band data_60m = 2"
    and "row stack_10m_sorted = row data_60m" and "column stack_10m_sorted = column data_60m"
    and "row data_20m = row data_60m" and "column data_20m = column data_60m"
  shows "merged_stack stack_10m_sorted data_20m data_60m =
           Inr \<lparr>row = row data_60m, column = column data_60m,
                bands = [bands data_60m ! 0,
                         bands stack_10m_sorted ! 0, bands stack_10m_sorted ! 1,
                         bands stack_10m_sorted ! 2,
                         bands data_20m ! 0, bands data_20m ! 1, bands data_20m ! 2,
                         bands stack_10m_sorted ! 3,
                         bands data_20m ! 5,
                         bands data_60m ! 1,
                         bands data_20m ! 3, bands data_20m ! 4]\<rparr>"
proof -
  obtain a b c d where s10: "bands stack_10m_sorted = [a, b, c, d]"
    using assms(1) len4 unfolding band_def by blast
  obtain e f g h i j where d20: "bands data_20m = [e, f, g, h, i, j]"
    using assms(2) len6 unfolding band_def by blast
  obtain k l where d60: "bands data_60m = [k, l]"
    using assms(3) len2 unfolding band_def by blast
  show ?thesis
    using assms(4-7) by (simp add: merged_stack_def concatenate_def slice_def s10 d20 d60)
qed

text \<open>The one-pixel stacks, merged: the bands come out as 1 to 8, 8A, 9, 11, 12.\<close>

theorem merged_stack_sequence_witness:
  "merged_stack tiny_10m tiny_20m tiny_60m =
     Inr \<lparr>row = 1, column = 1,
          bands = [[[1]], [[2]], [[3]], [[4]], [[5]], [[6]], [[7]], [[8]], [[138]], [[9]],
                   [[11]], [[12]]]\<rparr>"
  using merged_stack_sequence [of tiny_10m tiny_20m tiny_60m]
  by (simp add: tiny_10m_def tiny_20m_def tiny_60m_def band_def)

text \<open>
  The sequence as stated ends with the remaining 60m band; the code's ends with band 4 of
  the 20m stack, the 60m band standing third from the end.
\<close>

theorem merged_stack_sequence_counterexample:
  "merged_stack tiny_10m tiny_20m tiny_60m \<noteq> stated_sequence tiny_10m tiny_20m tiny_60m \<and>
   map_sum id (last \<circ> bands) (merged_stack tiny_10m tiny_20m tiny_60m) = Inr (bands tiny_20m ! 4) \<and>
   map_sum id (last \<circ> bands) (stated_sequence tiny_10m tiny_20m tiny_60m) = Inr (bands tiny_60m ! 1)"
  by (simp add: merged_stack_def stated_sequence_def concatenate_def slice_def
      tiny_10m_def tiny_20m_def tiny_60m_def)

subsection \<open>Band 1 of the merged product\<close>

text \<open>
  C3: whatever the pixel values of the three arrays, the merged array starts with the
  slice \<^verbatim>\<open>data_60m[0:1]\<close>; when the 60m stack has a band, output band 1 is its first
  band.
\<close>

theorem merged_stack_first_band:
  assumes "merged_stack stack_10m_sorted data_20m data_60m = Inr stack"
  shows "prefix (bands (slice data_60m 0 1)) (bands stack) \<and>
         (0 < band data_60m \<longrightarrow> bands stack ! 0 = bands data_60m ! 0)"
proof -
  have "bands stack = take 1 (bands data_60m) @ drop (length (take 1 (bands data_60m))) (bands stack)"
    using merged_stack_bands [OF assms] by simp
  then have p: "prefix (take 1 (bands data_60m)) (bands stack)"
    by (metis prefixI)
  have "bands stack ! 0 = bands data_60m ! 0" if "0 < band data_60m"
  proof -
    from that have "bands data_60m \<noteq> []" by (auto simp: band_def)
    then obtain x xs where "bands data_60m = x # xs"
      by (cases "bands data_60m") auto
    then show ?thesis using merged_stack_bands [OF assms] by simp
  qed
  with p show ?thesis by (simp add: slice_def)
qed

text \<open>The one-pixel stacks: output band 1 is the pixel 1 of the 60m stack.\<close>

theorem merged_stack_first_band_witness:
  "prefix (bands (slice tiny_60m 0 1))
     [[[1]], [[2]], [[3]], [[4]], [[5]], [[6]], [[7]], [[8]], [[138]], [[9]], [[11]], [[12]]] \<and>
   [[[1]], [[2]], [[3]], [[4]], [[5]], [[6]], [[7]], [[8]], [[138::u16]], [[9]], [[11]], [[12]]] ! 0
     = bands tiny_60m ! 0"
  using merged_stack_first_band [of tiny_10m tiny_20m tiny_60m
      "\<lparr>row = 1, column = 1,
        bands = [[[1]], [[2]], [[3]], [[4]], [[5]], [[6]], [[7]], [[8]], [[138]], [[9]],
                 [[11]], [[12]]]\<rparr>"]
  by (simp add: merged_stack_def concatenate_def slice_def tiny_10m_def tiny_20m_def
      tiny_60m_def band_def)

subsection \<open>Twelve bands\<close>

text \<open>
  C6: when the sorted 10m stack, the upsampled 20m stack and the upsampled 60m stack hold
  4, 6 and 2 bands, a merged array that \<^verbatim>\<open>np.concatenate\<close> returns has exactly 12
  bands, and it does return one when the three agree in rows and columns.
\<close>

theorem merged_stack_twelve_bands:
  assumes "band stack_10m_sorted = 4" and "band data_20m = 6" and "band data_60m = 2"
  shows "(\<forall>stack. merged_stack stack_10m_sorted data_20m data_60m = Inr stack \<longrightarrow>
            band stack = 12) \<and>
         (row stack_10m_sorted = row data_60m \<and> column stack_10m_sorted = column data_60m \<and>
          row data_20m = row data_60m \<and> column data_20m = column data_60m \<longrightarrow>
            (\<exists>stack. merged_stack stack_10m_sorted data_20m data_60m = Inr stack))"
proof -
  have "band stack = 12" if "merged_stack stack_10m_sorted data_20m data_60m = Inr stack"
    for stack
    using merged_stack_bands [OF that] assms by (simp add: band_def)
  then show ?thesis using merged_stack_returns by blast
qed

text \<open>The one-pixel stacks have 4, 6 and 2 bands, and their merged array has 12.\<close>

theorem merged_stack_twelve_bands_witness:
  "band tiny_10m = 4 \<and> band tiny_20m = 6 \<and> band tiny_60m = 2 \<and>
   map_sum id band (merged_stack tiny_10m tiny_20m tiny_60m) = Inr 12"
proof -
  have b: "band tiny_10m = 4" "band tiny_20m = 6" "band tiny_60m = 2"
    by (simp_all add: band_def tiny_10m_def tiny_20m_def tiny_60m_def)
  have d: "row tiny_10m = row tiny_60m \<and> column tiny_10m = column tiny_60m \<and>
           row tiny_20m = row tiny_60m \<and> column tiny_20m = column tiny_60m"
    by (simp add: tiny_10m_def tiny_20m_def tiny_60m_def)
  from merged_stack_twelve_bands [OF b] d
  obtain stack where "merged_stack tiny_10m tiny_20m tiny_60m = Inr stack" "band stack = 12"
    by blast
  with b show ?thesis by simp
qed

section \<open>Properties of the band sorter on the store\<close>

lemma while_loop_store_frame:
  "while_loop_store np s code_list sorted_list c_arr count count_sort = Inr s' \<Longrightarrow>
     ndarrays s' = ndarrays s \<and> pylists s' = pylists s \<and>
     length (uint8_arrays s') = length (uint8_arrays s) \<and>
     (\<forall>a. a \<noteq> c_arr \<longrightarrow> uint8_arrays s' ! a = uint8_arrays s ! a)"
proof (induction np s code_list sorted_list c_arr count count_sort
       rule: while_loop_store.induct)
  case (1 np s code_list sorted_list c_arr count count_sort)
  note step = while_loop_store.simps [of np s code_list sorted_list c_arr count count_sort]
  show ?case
  proof (cases "count_sort \<noteq> length (pylists s ! code_list)")
    case False
    then show ?thesis using "1.prems" step by simp
  next
    case running: True
    have ok: "\<not> length (pylists s ! code_list) \<le> count"
             "\<not> length (pylists s ! sorted_list) \<le> count_sort"
      using running "1.prems" step by (simp_all split: if_splits)
    show ?thesis
    proof (cases "pylists s ! code_list ! count = pylists s ! sorted_list ! count_sort")
      case False
      have next_call:
        "while_loop_store np s code_list sorted_list c_arr (count + 1) count_sort = Inr s'"
        using running ok False "1.prems" step by simp
      from "1.IH"(2) [OF running ok False next_call] show ?thesis .
    next
      case hit: True
      have ok3: "\<not> length (uint8_arrays s ! c_arr) \<le> count_sort"
        using running ok hit "1.prems" step by (simp split: if_splits)
      obtain v where
        v: "uint8_setitem np count = Inr v"
        and next_call:
          "while_loop_store np
             (s\<lparr>uint8_arrays :=
                  (uint8_arrays s)[c_arr := (uint8_arrays s ! c_arr)[count_sort := v]]\<rparr>)
             code_list sorted_list c_arr 0 (count_sort + 1) = Inr s'"
        using running ok hit ok3 "1.prems" step by (simp split: sum.splits)
      from "1.IH"(1) [OF running ok hit ok3 v next_call]
      show ?thesis by simp
    qed
  qed
qed

lemma for_loop_store_frame:
  "for_loop_store s stack_array c_arr stack_sorted js = Inr s' \<Longrightarrow>
     uint8_arrays s' = uint8_arrays s \<and> pylists s' = pylists s \<and>
     length (ndarrays s') = length (ndarrays s) \<and>
     (\<forall>a. a \<noteq> stack_sorted \<longrightarrow> ndarrays s' ! a = ndarrays s ! a) \<and>
     shape (ndarrays s' ! stack_sorted) = shape (ndarrays s ! stack_sorted)"
proof (induction js arbitrary: s)
  case Nil
  then show ?case by simp
next
  case (Cons sorted_band rest)
  let ?dst = "ndarrays s ! stack_sorted"
  let ?s1 = "s\<lparr>ndarrays :=
                  (ndarrays s)[stack_sorted :=
                     ?dst\<lparr>bands :=
                          (bands ?dst)
                            [sorted_band :=
                               bands (ndarrays s ! stack_array) !
                                 unat (uint8_arrays s ! c_arr ! sorted_band)]\<rparr>]\<rparr>"
  from Cons.prems have next_call:
    "for_loop_store ?s1 stack_array c_arr stack_sorted rest = Inr s'"
    by (simp split: if_splits)
  from Cons.IH [OF next_call] have
    ih: "uint8_arrays s' = uint8_arrays ?s1" "pylists s' = pylists ?s1"
        "length (ndarrays s') = length (ndarrays ?s1)"
        "\<forall>a. a \<noteq> stack_sorted \<longrightarrow> ndarrays s' ! a = ndarrays ?s1 ! a"
        "shape (ndarrays s' ! stack_sorted) = shape (ndarrays ?s1 ! stack_sorted)"
    by blast+
  have "shape (ndarrays ?s1 ! stack_sorted) = shape ?dst"
    by (cases "stack_sorted < length (ndarrays s)")
       (simp_all add: shape_def band_def list_update_beyond)
  with ih show ?case by simp
qed

lemma while_loop_store_refines:
  assumes "c_arr < length (uint8_arrays s)"
  shows "while_loop_store np s code_list sorted_list c_arr count count_sort =
           map_sum id (\<lambda>ca. s\<lparr>uint8_arrays := (uint8_arrays s)[c_arr := ca]\<rparr>)
             (while_loop np (pylists s ! code_list) (pylists s ! sorted_list)
                (uint8_arrays s ! c_arr) count count_sort)"
  using assms
proof (induction np s code_list sorted_list c_arr count count_sort
       rule: while_loop_store.induct)
  case (1 np s code_list sorted_list c_arr count count_sort)
  note step = while_loop_store.simps [of np s code_list sorted_list c_arr count count_sort]
  note pure = while_loop.simps [of np "pylists s ! code_list" "pylists s ! sorted_list"
      "uint8_arrays s ! c_arr" count count_sort]
  show ?case
  proof (cases "count_sort \<noteq> length (pylists s ! code_list) \<and>
                \<not> length (pylists s ! code_list) \<le> count \<and>
                \<not> length (pylists s ! sorted_list) \<le> count_sort")
    case False
    then show ?thesis unfolding step pure by (auto simp: list_update_id)
  next
    case True
    then have running: "count_sort \<noteq> length (pylists s ! code_list)"
      and ok: "\<not> length (pylists s ! code_list) \<le> count"
              "\<not> length (pylists s ! sorted_list) \<le> count_sort"
      by simp_all
    show ?thesis
    proof (cases "pylists s ! code_list ! count = pylists s ! sorted_list ! count_sort")
      case False
      from "1.IH"(2) [OF running ok False "1.prems"]
      show ?thesis unfolding step pure using running ok False by simp
    next
      case hit: True
      show ?thesis
      proof (cases "length (uint8_arrays s ! c_arr) \<le> count_sort")
        case True
        then show ?thesis unfolding step pure using running ok hit by simp
      next
        case ok3: False
        show ?thesis
        proof (cases "uint8_setitem np count")
          case (Inl e)
          then show ?thesis unfolding step pure using running ok hit ok3 by simp
        next
          case (Inr v)
          let ?s' = "s\<lparr>uint8_arrays :=
                         (uint8_arrays s)[c_arr := (uint8_arrays s ! c_arr)[count_sort := v]]\<rparr>"
          have valid: "c_arr < length (uint8_arrays ?s')" using "1.prems" by simp
          from "1.IH"(1) [OF running ok hit ok3 Inr valid] "1.prems"
          show ?thesis unfolding step pure using running ok hit ok3 Inr
            by (simp add: map_sum.compositionality comp_def)
        qed
      qed
    qed
  qed
qed

lemma for_loop_store_refines:
  assumes "stack_sorted < length (ndarrays s)" and "stack_array \<noteq> stack_sorted"
  shows "for_loop_store s stack_array c_arr stack_sorted js =
           map_sum id
             (\<lambda>bs. s\<lparr>ndarrays :=
                        (ndarrays s)[stack_sorted := (ndarrays s ! stack_sorted)\<lparr>bands := bs\<rparr>]\<rparr>)
             (for_loop (ndarrays s ! stack_array) (uint8_arrays s ! c_arr) js
                (bands (ndarrays s ! stack_sorted)))"
  using assms
proof (induction js arbitrary: s)
  case Nil
  then show ?case by (simp add: list_update_id)
next
  case (Cons sorted_band rest)
  let ?dst = "ndarrays s ! stack_sorted"
  let ?s1 = "s\<lparr>ndarrays :=
                  (ndarrays s)[stack_sorted :=
                     ?dst\<lparr>bands :=
                          (bands ?dst)
                            [sorted_band :=
                               bands (ndarrays s ! stack_array) !
                                 unat (uint8_arrays s ! c_arr ! sorted_band)]\<rparr>]\<rparr>"
  have valid: "stack_sorted < length (ndarrays ?s1)" using Cons.prems(1) by simp
  from Cons.IH [OF valid Cons.prems(2)] Cons.prems
  show ?case by (simp add: band_def)
qed

lemma stack_sort_store_refines:
  assumes "stack_array < length (ndarrays s)"
  shows "map_sum id (\<lambda>(stack_sorted, s'). ndarrays s' ! stack_sorted)
           (stack_sort_store np s stack_array code_list sorted_list) =
         stack_sort np (ndarrays s ! stack_array) (pylists s ! code_list)
           (pylists s ! sorted_list)"
proof -
  let ?a = "ndarrays s ! stack_array"
  let ?z = "zeros (band ?a) (row ?a) (column ?a)"
  let ?s1 = "s\<lparr>ndarrays := ndarrays s @ [?z]\<rparr>"
  let ?n = "length (pylists s ! code_list)"
  let ?s2 = "?s1\<lparr>uint8_arrays := uint8_arrays ?s1 @ [replicate ?n 0]\<rparr>"
  let ?ss = "length (ndarrays s)"
  let ?ca = "length (uint8_arrays s)"
  let ?pure = "while_loop np (pylists s ! code_list) (pylists s ! sorted_list)
                 (replicate ?n 0) 0 0"
  have unfold: "stack_sort_store np s stack_array code_list sorted_list =
                  (case while_loop_store np ?s2 code_list sorted_list ?ca 0 0 of
                     Inl e \<Rightarrow> Inl e
                   | Inr s3 \<Rightarrow>
                       (case for_loop_store s3 stack_array ?ca ?ss [0..<?n] of
                          Inl e \<Rightarrow> Inl e
                        | Inr s4 \<Rightarrow> Inr (?ss, s4)))"
    by (simp add: stack_sort_store_def Let_def cong: sum.case_cong)
  have loop1: "while_loop_store np ?s2 code_list sorted_list ?ca 0 0 =
                 map_sum id (\<lambda>ca. ?s2\<lparr>uint8_arrays := (uint8_arrays ?s2)[?ca := ca]\<rparr>) ?pure"
    using while_loop_store_refines [of ?ca ?s2 np code_list sorted_list 0 0] by simp
  show ?thesis
  proof (cases ?pure)
    case (Inl e)
    then show ?thesis unfolding unfold loop1
      by (simp add: stack_sort_def Let_def)
  next
    case (Inr ca)
    let ?s3 = "s\<lparr>ndarrays := ndarrays s @ [?z], uint8_arrays := uint8_arrays s @ [ca]\<rparr>"
    have s3: "?s2\<lparr>uint8_arrays := (uint8_arrays ?s2)[?ca := ca]\<rparr> = ?s3" by simp
    have rd: "ndarrays ?s3 ! stack_array = ?a" "uint8_arrays ?s3 ! ?ca = ca"
      "ndarrays ?s3 ! ?ss = ?z"
      using assms by (simp_all add: nth_append)
    have "for_loop_store ?s3 stack_array ?ca ?ss [0..<?n] =
                   map_sum id
                     (\<lambda>bs. ?s3\<lparr>ndarrays :=
                                (ndarrays ?s3)[?ss := (ndarrays ?s3 ! ?ss)\<lparr>bands := bs\<rparr>]\<rparr>)
                     (for_loop (ndarrays ?s3 ! stack_array) (uint8_arrays ?s3 ! ?ca) [0..<?n]
                        (bands (ndarrays ?s3 ! ?ss)))"
      using assms by (intro for_loop_store_refines) simp_all
    then have loop2: "for_loop_store ?s3 stack_array ?ca ?ss [0..<?n] =
                   map_sum id
                     (\<lambda>bs. ?s3\<lparr>ndarrays :=
                                (ndarrays ?s3)[?ss := ?z\<lparr>bands := bs\<rparr>]\<rparr>)
                     (for_loop ?a ca [0..<?n] (bands ?z))"
      unfolding rd .
    have store: "stack_sort_store np s stack_array code_list sorted_list =
                   (case for_loop_store ?s3 stack_array ?ca ?ss [0..<?n] of
                      Inl e \<Rightarrow> Inl e
                    | Inr s4 \<Rightarrow> Inr (?ss, s4))"
      unfolding unfold loop1 Inr by (simp only: map_sum.simps sum.case s3)
    have pure: "stack_sort np ?a (pylists s ! code_list) (pylists s ! sorted_list) =
                  (case for_loop ?a ca [0..<?n] (bands ?z) of
                     Inl e \<Rightarrow> Inl e
                   | Inr bs \<Rightarrow> Inr (?z\<lparr>bands := bs\<rparr>))"
      using Inr by (simp add: stack_sort_def Let_def)
    show ?thesis
      unfolding store pure loop2
      by (cases "for_loop ?a ca [0..<?n] (bands ?z)") simp_all
  qed
qed

lemma demo_store_run:
  "stack_sort_store NumPy2 demo_store 0 0 1 =
     Inr (1, demo_store_after)"
  unfolding demo_store_after_def by code_simp

subsection \<open>Frame\<close>

text \<open>
  C10: for every call of \<open>stack_sort\<close> that returns, the input stack array, the code
  list and the canonical list are as they were before the call, and so is every other
  object the store held; the returned reference is that of an array allocated by the
  call, distinct from the input, holding uint16 samples in the input's shape.
\<close>

theorem stack_sort_store_frame:
  assumes "stack_array < length (ndarrays s)"
    and "stack_sort_store np s stack_array code_list sorted_list = Inr (stack_sorted, s')"
  shows "ndarrays s' ! stack_array = ndarrays s ! stack_array \<and>
         pylists s' ! code_list = pylists s ! code_list \<and>
         pylists s' ! sorted_list = pylists s ! sorted_list \<and>
         take (length (ndarrays s)) (ndarrays s') = ndarrays s \<and>
         take (length (uint8_arrays s)) (uint8_arrays s') = uint8_arrays s \<and>
         pylists s' = pylists s \<and>
         stack_sorted = length (ndarrays s) \<and> stack_sorted \<noteq> stack_array \<and>
         stack_sorted < length (ndarrays s') \<and>
         shape (ndarrays s' ! stack_sorted) = shape (ndarrays s ! stack_array)"
proof -
  let ?a = "ndarrays s ! stack_array"
  let ?s1 = "s\<lparr>ndarrays := ndarrays s @ [zeros (band ?a) (row ?a) (column ?a)]\<rparr>"
  let ?n = "length (pylists s ! code_list)"
  let ?s2 = "?s1\<lparr>uint8_arrays := uint8_arrays ?s1 @ [replicate ?n 0]\<rparr>"
  let ?ss = "length (ndarrays s)"
  let ?ca = "length (uint8_arrays s)"
  have unfold: "stack_sort_store np s stack_array code_list sorted_list =
                  (case while_loop_store np ?s2 code_list sorted_list ?ca 0 0 of
                     Inl e \<Rightarrow> Inl e
                   | Inr s3 \<Rightarrow>
                       (case for_loop_store s3 stack_array ?ca ?ss [0..<?n] of
                          Inl e \<Rightarrow> Inl e
                        | Inr s4 \<Rightarrow> Inr (?ss, s4)))"
    by (simp add: stack_sort_store_def Let_def cong: sum.case_cong)
  obtain s3 where loop1: "while_loop_store np ?s2 code_list sorted_list ?ca 0 0 = Inr s3"
    using assms(2) unfolding unfold
    by (cases "while_loop_store np ?s2 code_list sorted_list ?ca 0 0") simp_all
  have loop2: "for_loop_store s3 stack_array ?ca ?ss [0..<?n] = Inr s'"
    and ref: "stack_sorted = ?ss"
    using assms(2) unfolding unfold loop1
    by (cases "for_loop_store s3 stack_array ?ca ?ss [0..<?n]"; simp)+
  from while_loop_store_frame [OF loop1] have
    f1: "ndarrays s3 = ndarrays ?s2" "pylists s3 = pylists ?s2"
        "length (uint8_arrays s3) = length (uint8_arrays ?s2)"
        "\<forall>a. a \<noteq> ?ca \<longrightarrow> uint8_arrays s3 ! a = uint8_arrays ?s2 ! a"
    by blast+
  from for_loop_store_frame [OF loop2] have
    f2: "uint8_arrays s' = uint8_arrays s3" "pylists s' = pylists s3"
        "length (ndarrays s') = length (ndarrays s3)"
        "\<forall>a. a \<noteq> ?ss \<longrightarrow> ndarrays s' ! a = ndarrays s3 ! a"
        "shape (ndarrays s' ! ?ss) = shape (ndarrays s3 ! ?ss)"
    by blast+
  have lists: "pylists s' = pylists s" using f1(2) f2(2) by simp
  have old: "ndarrays s' ! a = ndarrays s ! a" if "a < ?ss" for a
    using that f2(4) f1(1) by (simp add: nth_append)
  have len: "length (ndarrays s') = Suc ?ss" using f2(3) f1(1) by simp
  have arrays: "take ?ss (ndarrays s') = ndarrays s"
    using old len by (intro nth_equalityI) simp_all
  have old8: "uint8_arrays s' ! a = uint8_arrays s ! a" if "a < ?ca" for a
    using that f2(1) f1(4) by (simp add: nth_append)
  have len8: "length (uint8_arrays s') = Suc ?ca" using f2(1) f1(3) by simp
  have arrays8: "take ?ca (uint8_arrays s') = uint8_arrays s"
    using old8 len8 by (intro nth_equalityI) simp_all
  have sh: "shape (ndarrays s' ! ?ss) = shape ?a"
    using f2(5) f1(1) by (simp add: shape_def band_def zeros_def)
  show ?thesis
    using lists old [OF assms(1)] arrays arrays8 ref assms(1) len sh by simp
qed

text \<open>The call on the demonstration store.\<close>

theorem stack_sort_store_frame_witness:
  "0 < length (ndarrays demo_store) \<and>
   stack_sort_store NumPy2 demo_store 0 0 1 = Inr (1, demo_store_after) \<and>
   ndarrays demo_store_after ! 0 = ndarrays demo_store ! 0 \<and>
   pylists demo_store_after = pylists demo_store \<and>
   1 \<noteq> (0::nat) \<and> 1 = length (ndarrays demo_store) \<and>
   shape (ndarrays demo_store_after ! 1) = shape (ndarrays demo_store ! 0)"
proof -
  have valid: "0 < length (ndarrays demo_store)" by (simp add: demo_store_def)
  have len: "length (ndarrays demo_store) = 1" by (simp add: demo_store_def)
  from stack_sort_store_frame [OF valid demo_store_run] valid demo_store_run
  show ?thesis unfolding len by simp
qed

section \<open>Properties of the processors\<close>

subsection \<open>Runs\<close>

lemma and_then_Inr:
  assumes "and_then m f = (t, Inr y)"
  obtains t1 x t2 where "m = (t1, Inr x)" "f x = (t2, Inr y)" "t = t1 @ t2"
  using assms by (auto simp: and_then_def split: prod.splits sum.splits)

lemma and_then_Inl:
  assumes "and_then m f = (t, Inl e)"
  obtains "m = (t, Inl e)"
  | t1 x t2 where "m = (t1, Inr x)" "f x = (t2, Inl e)" "t = t1 @ t2"
  using assms by (auto simp: and_then_def split: prod.splits sum.splits)


lemma and_then_events:
  assumes "\<forall>ev\<in>set (fst m). P ev" and "\<And>x. \<forall>ev\<in>set (fst (f x)). P ev"
  shows "\<forall>ev\<in>set (fst (and_then m f)). P ev"
proof (cases m)
  case (Pair t r)
  show ?thesis
  proof (cases r)
    case (Inl e)
    with Pair assms(1) show ?thesis by (simp add: and_then_def)
  next
    case (Inr x)
    with Pair assms(1) assms(2) [of x] show ?thesis
      by (auto simp: and_then_def split: prod.splits)
  qed
qed

subsection \<open>The granule guard\<close>

lemma fnmatch_literal_prefix:
  "fnmatch True (lit @ ''*'') name \<Longrightarrow> CHR ''*'' \<notin> set lit \<Longrightarrow> CHR ''?'' \<notin> set lit \<Longrightarrow>
     prefix lit name"
proof (induction lit arbitrary: name)
  case Nil
  then show ?case by simp
next
  case (Cons p lit)
  then show ?case by (cases name) (auto simp: same_char_def)
qed

lemma fnmatch_contains:
  assumes "fnmatch True (CHR ''*'' # lit @ ''*'') name"
    and "CHR ''*'' \<notin> set lit" and "CHR ''?'' \<notin> set lit" and "lit \<noteq> []"
  shows "contains lit name"
  using assms(1)
proof (induction name)
  case Nil
  then show ?case using assms(2,4) by (cases lit) auto
next
  case (Cons c name)
  from Cons.prems have "fnmatch True (lit @ ''*'') (c # name) \<or>
                        fnmatch True (CHR ''*'' # lit @ ''*'') name"
    by simp
  then show ?case
  proof
    assume "fnmatch True (lit @ ''*'') (c # name)"
    then have "prefix lit (c # name)" using assms(2,3) by (rule fnmatch_literal_prefix)
    then show ?thesis by simp
  next
    assume "fnmatch True (CHR ''*'' # lit @ ''*'') name"
    then have "contains lit name" by (rule Cons.IH)
    then show ?thesis by simp
  qed
qed

lemma rglob_L2A_contains:
  assumes "case_sensitive w" and "granule \<in> set (rglob w ''*L2A*'')"
  shows "contains ''L2A'' granule"
proof -
  from assms have "fnmatch True (CHR ''*'' # ''L2A'' @ ''*'') granule"
    by (simp add: rglob_def)
  then show ?thesis by (rule fnmatch_contains) simp_all
qed

lemma find_granule_guard:
  assumes "case_sensitive w"
  shows "snd (find_granule w) \<noteq> Inl (SystemExit L2A_product_not_found)"
proof (cases "rglob w ''*L2A*''")
  case Nil
  then show ?thesis by (simp add: find_granule_def raise_def)
next
  case (Cons granule rest)
  then have "granule \<in> set (rglob w ''*L2A*'')" by simp
  with assms have "contains ''L2A'' granule" by (rule rglob_L2A_contains)
  with Cons show ?thesis by (simp add: find_granule_def return_def)
qed

subsection \<open>Which step raises which exception\<close>

lemma while_loop_errors:
  "while_loop np code_list sorted_list c_arr count count_sort = Inl e \<Longrightarrow>
     e = IndexError \<or> e = OverflowError"
proof (induction np code_list sorted_list c_arr count count_sort rule: while_loop.induct)
  case (1 np code_list sorted_list c_arr count count_sort)
  note step = while_loop.simps [of np code_list sorted_list c_arr count count_sort]
  show ?case
  proof (cases "count_sort \<noteq> length code_list \<and> \<not> length code_list \<le> count \<and>
                \<not> length sorted_list \<le> count_sort")
    case False
    then show ?thesis using "1.prems" step by (auto split: if_splits)
  next
    case True
    then have running: "count_sort \<noteq> length code_list"
      and ok: "\<not> length code_list \<le> count" "\<not> length sorted_list \<le> count_sort"
      by simp_all
    show ?thesis
    proof (cases "code_list ! count = sorted_list ! count_sort")
      case False
      then have "while_loop np code_list sorted_list c_arr (count + 1) count_sort = Inl e"
        using running ok "1.prems" step by simp
      from "1.IH"(2) [OF running ok False this] show ?thesis .
    next
      case hit: True
      show ?thesis
      proof (cases "length c_arr \<le> count_sort")
        case True
        then show ?thesis using running ok hit "1.prems" step by simp
      next
        case ok3: False
        show ?thesis
        proof (cases "uint8_setitem np count")
          case (Inl e')
          then have "e = e'" using running ok hit ok3 "1.prems" step by simp
          moreover have "e' = OverflowError"
            using Inl by (auto simp: uint8_setitem_def split: if_splits numpy.splits)
          ultimately show ?thesis by simp
        next
          case (Inr v)
          then have "while_loop np code_list sorted_list (c_arr[count_sort := v]) 0
                       (count_sort + 1) = Inl e"
            using running ok hit ok3 "1.prems" step by simp
          from "1.IH"(1) [OF running ok hit ok3 Inr this] show ?thesis .
        qed
      qed
    qed
  qed
qed

lemma for_loop_errors:
  "for_loop stack_array c_arr js stack_sorted = Inl e \<Longrightarrow> e = IndexError"
  by (induction js arbitrary: stack_sorted) (auto split: if_splits)

lemma stack_sort_errors:
  assumes "stack_sort np stack_array code_list sorted_list = Inl e"
  shows "e = IndexError \<or> e = OverflowError"
  using assms while_loop_errors for_loop_errors
  by (fastforce simp: stack_sort_def Let_def split: sum.splits)

lemma sort_tier_run:
  "\<exists>r. sort_tier w tags files sorted_list = ([], r) \<and>
       (\<forall>e. r = Inl e \<longrightarrow> e = IndexError \<or> e = OverflowError \<or> e = ValueError)"
proof -
  obtain code_list stack_list where rb: "read_bands tags files = (code_list, stack_list)"
    by (cases "read_bands tags files")
  show ?thesis
  proof (cases "asarray stack_list")
    case (Inl e)
    then have "e = ValueError"
      by (auto simp: asarray_def split: list.splits if_splits)
    with Inl rb show ?thesis by (simp add: sort_tier_def lift_def)
  next
    case (Inr a)
    with rb stack_sort_errors [of "numpy_generation w" a code_list sorted_list]
    show ?thesis by (auto simp: sort_tier_def lift_def)
  qed
qed

lemma check_path_validity_cases:
  "check_path_validity w =
     (if \<not> path_exists w then ([], Inl (SystemExit File_does_not_exist))
      else if suffix_of (product_name w) \<notin> set [''.zip'', ''.SAFE'']
      then ([], Inl (SystemExit File_does_not_have_the_correct_suffix))
      else (if suffix_of (product_name w) = ''.zip'' then [Extractall] else [], Inr ()))"
  by (simp add: check_path_validity_def raise_def emit_def return_def)

lemma output_folder_run:
  "output_folder w output_path =
     (case output_path of
        Some p \<Rightarrow> []
      | None \<Rightarrow> (if output_folder_exists w then [Rmtree GTIFF_PRODUCT] else []) @
                 [Mkdir GTIFF_PRODUCT],
      Inr ())"
  by (simp add: output_folder_def and_then_def emit_def return_def split: option.splits)

lemma find_granule_run:
  "fst (find_granule w) = [] \<and>
   (\<forall>e. snd (find_granule w) = Inl e \<longrightarrow>
      e = IndexError \<or> e = SystemExit L2A_product_not_found)"
  by (simp add: find_granule_def raise_def return_def split: list.splits)

lemma write_raster_run:
  "write_raster path n array =
     (if band array \<noteq> n then ([Open_w path n], Inl ValueError)
      else ([Open_w path n, Write path array], Inr ()))"
  by (simp add: write_raster_def and_then_def emit_def raise_def)

lemma resampling_of_run:
  "resampling_of resample =
     (if resample \<in> set [''nearest'', ''bilinear'', ''cubic'']
      then ([], Inr (if resample = ''nearest'' then nearest
                     else if resample = ''bilinear'' then bilinear else cubic))
      else ([], Inl (SystemExit (Not_a_valid_option resample))))"
  by (simp add: resampling_of_def return_def raise_def)

lemma save_stacks_SystemExit:
  assumes "save_stacks w output_path = (t, Inl (SystemExit m))"
  shows "(m = File_does_not_exist \<and> \<not> path_exists w \<and> t = []) \<or>
         (m = File_does_not_have_the_correct_suffix \<and> path_exists w \<and>
            suffix_of (product_name w) \<notin> set [''.zip'', ''.SAFE''] \<and> t = []) \<or>
         (m = L2A_product_not_found \<and>
            snd (find_granule w) = Inl (SystemExit L2A_product_not_found))"
  using assms unfolding save_stacks_def
proof (elim and_then_Inl, goal_cases)
  case 1
  then show ?case by (simp add: check_path_validity_cases split: if_splits)
next
  case 2
  then show ?case by (simp add: output_folder_run)
next
  case 3
  then show ?case by (simp add: emit_def)
next
  case 4
  then show ?case using find_granule_run [of w] by auto
next
  case 5
  then show ?case using sort_tier_run [of w tags_10m "files_10m w" sorted_list_10m] by auto
next
  case 6
  then show ?case using sort_tier_run [of w tags_20m "files_20m w" sorted_list_20m] by auto
next
  case 7
  then show ?case using sort_tier_run [of w tags_60m "files_60m w" sorted_list_60m] by auto
next
  case 8
  then show ?case by (simp add: write_raster_run split: if_splits)
next
  case 9
  then show ?case by (simp add: write_raster_run split: if_splits)
next
  case 10
  then show ?case by (simp add: write_raster_run split: if_splits)
next
  case 11
  then show ?case by (simp add: return_def)
qed

lemma save_stacks_Inr:
  assumes "save_stacks w output_path = (t, Inr (stack_10m_sorted, stack_20m_sorted, stack_60m_sorted))"
  shows "path_exists w \<and> suffix_of (product_name w) \<in> set [''.zip'', ''.SAFE''] \<and>
         sort_tier w tags_10m (files_10m w) sorted_list_10m = ([], Inr stack_10m_sorted) \<and>
         sort_tier w tags_20m (files_20m w) sorted_list_20m = ([], Inr stack_20m_sorted) \<and>
         sort_tier w tags_60m (files_60m w) sorted_list_60m = ([], Inr stack_60m_sorted) \<and>
         band stack_10m_sorted = 4 \<and> band stack_20m_sorted = 6 \<and> band stack_60m_sorted = 2 \<and>
         t = (if suffix_of (product_name w) = ''.zip'' then [Extractall] else []) @
             fst (output_folder w output_path) @
             [Mkdir TEMP,
              Open_w Temp_10m 4, Write Temp_10m stack_10m_sorted,
              Open_w Temp_20m 6, Write Temp_20m stack_20m_sorted,
              Open_w Temp_60m 2, Write Temp_60m stack_60m_sorted]"
  using assms unfolding save_stacks_def
proof (elim and_then_Inr, goal_cases)
  case (1 t1 x1 t2 t3 x3 t4 t5 x5 t6 t7 granule t8 t9 s10 t10 t11 s20 t12 t13 s60 t14
        t15 x15 t16 t17 x17 t18 t19 x19 t20)
  have s: "s10 = stack_10m_sorted" "s20 = stack_20m_sorted" "s60 = stack_60m_sorted" "t20 = []"
    using 1 by (simp_all add: return_def)
  have p: "path_exists w" "suffix_of (product_name w) \<in> set [''.zip'', ''.SAFE'']"
    "t1 = (if suffix_of (product_name w) = ''.zip'' then [Extractall] else [])"
    using \<open>check_path_validity w = (t1, Inr x1)\<close>
    by (auto simp: check_path_validity_cases split: if_splits)
  have o: "t3 = fst (output_folder w output_path)"
    using \<open>output_folder w output_path = (t3, Inr x3)\<close> by simp
  have m: "t5 = [Mkdir TEMP]"
    using \<open>emit (Mkdir TEMP) = (t5, Inr x5)\<close> by (simp add: emit_def)
  have g: "t7 = []"
    using \<open>find_granule w = (t7, Inr granule)\<close> find_granule_run [of w] by simp
  have t10: "t9 = []" "t11 = []" "t13 = []"
    using sort_tier_run [of w tags_10m "files_10m w" sorted_list_10m]
      sort_tier_run [of w tags_20m "files_20m w" sorted_list_20m]
      sort_tier_run [of w tags_60m "files_60m w" sorted_list_60m]
      \<open>sort_tier w tags_10m (files_10m w) sorted_list_10m = (t9, Inr s10)\<close>
      \<open>sort_tier w tags_20m (files_20m w) sorted_list_20m = (t11, Inr s20)\<close>
      \<open>sort_tier w tags_60m (files_60m w) sorted_list_60m = (t13, Inr s60)\<close>
    by auto
  have w10: "band s10 = 4" "t15 = [Open_w Temp_10m 4, Write Temp_10m s10]"
    using \<open>write_raster Temp_10m 4 s10 = (t15, Inr x15)\<close>
    by (simp_all add: write_raster_run split: if_splits)
  have w20: "band s20 = 6" "t17 = [Open_w Temp_20m 6, Write Temp_20m s20]"
    using \<open>write_raster Temp_20m 6 s20 = (t17, Inr x17)\<close>
    by (simp_all add: write_raster_run split: if_splits)
  have w60: "band s60 = 2" "t19 = [Open_w Temp_60m 2, Write Temp_60m s60]"
    using \<open>write_raster Temp_60m 2 s60 = (t19, Inr x19)\<close>
    by (simp_all add: write_raster_run split: if_splits)
  have tr: "t = t1 @ t3 @ t5 @ t7 @ t9 @ t11 @ t13 @ t15 @ t17 @ t19 @ t20"
    using 1 by simp
  show ?case
    using p(1,2) 1(9,11,13) w10(1) w20(1) w60(1)
    unfolding tr p(3) o m g t10 w10(2) w20(2) w60(2) s by simp
qed

lemma save_stacks_events: "\<forall>ev\<in>set (fst (save_stacks w output_path)). \<not> touches_product ev"
  unfolding save_stacks_def
proof (intro and_then_events, goal_cases)
  case 1
  show ?case by (simp add: check_path_validity_cases touches_product_def)
next
  case 2
  show ?case by (auto simp: output_folder_run touches_product_def split: option.splits)
next
  case 3
  show ?case by (simp add: emit_def touches_product_def)
next
  case 4
  show ?case using find_granule_run [of w] by simp
next
  case 5
  show ?case using sort_tier_run [of w tags_10m "files_10m w" sorted_list_10m] by auto
next
  case 6
  show ?case using sort_tier_run [of w tags_20m "files_20m w" sorted_list_20m] by auto
next
  case 7
  show ?case using sort_tier_run [of w tags_60m "files_60m w" sorted_list_60m] by auto
next
  case 8
  show ?case by (simp add: write_raster_run touches_product_def)
next
  case 9
  show ?case by (simp add: write_raster_run touches_product_def)
next
  case 10
  show ?case by (simp add: write_raster_run touches_product_def)
next
  case 11
  show ?case by (simp add: return_def)
qed

lemma prepare_all_events:
  "\<forall>ev\<in>set (fst (prepare_all w output_path resample)). \<not> touches_product ev"
  unfolding prepare_all_def
proof (intro and_then_events, goal_cases)
  case 1
  show ?case by (rule save_stacks_events)
next
  case (2 x)
  show ?case
    by (cases x) (simp add: and_then_def resampling_of_run return_def)
qed

lemma prepare_all_Inl:
  assumes "prepare_all w output_path resample = (t, Inl e)"
  shows "save_stacks w output_path = (t, Inl e) \<or>
         (e = SystemExit (Not_a_valid_option resample) \<and>
          resample \<notin> set [''nearest'', ''bilinear'', ''cubic''] \<and>
          (\<exists>s10 s20 s60. save_stacks w output_path = (t, Inr (s10, s20, s60))))"
  using assms unfolding prepare_all_def
proof (elim and_then_Inl, goal_cases)
  case 1
  then show ?case by simp
next
  case (2 t1 x t2)
  obtain s10 s20 s60 where x: "x = (s10, s20, s60)" by (cases x)
  from 2(2) x have r: "and_then (resampling_of resample)
                   (\<lambda>res. return (s10, read_resampled w res 2 s20, read_resampled w res 6 s60)) =
                 (t2, Inl e)" by simp
  then have "resample \<notin> set [''nearest'', ''bilinear'', ''cubic'']"
    by (auto simp: resampling_of_run and_then_def return_def split: if_splits)
  moreover from this r have "t2 = []" "e = SystemExit (Not_a_valid_option resample)"
    by (simp_all add: resampling_of_run and_then_def)
  ultimately show ?case using 2(1,3) x by simp
qed

lemma prepare_all_Inr:
  assumes "prepare_all w output_path resample = (t, Inr (stack_10m_sorted, data_20m, data_60m))"
  shows "resample \<in> set [''nearest'', ''bilinear'', ''cubic''] \<and>
         (\<exists>stack_20m_sorted stack_60m_sorted res.
            save_stacks w output_path =
              (t, Inr (stack_10m_sorted, stack_20m_sorted, stack_60m_sorted)) \<and>
            data_20m = read_resampled w res 2 stack_20m_sorted \<and>
            data_60m = read_resampled w res 6 stack_60m_sorted)"
  using assms unfolding prepare_all_def
proof (elim and_then_Inr, goal_cases)
  case (1 t1 x t2)
  obtain s10 s20 s60 where x: "x = (s10, s20, s60)" by (cases x)
  from 1(2) x have r: "and_then (resampling_of resample)
                   (\<lambda>res. return (s10, read_resampled w res 2 s20, read_resampled w res 6 s60)) =
                 (t2, Inr (stack_10m_sorted, data_20m, data_60m))" by simp
  then have v: "resample \<in> set [''nearest'', ''bilinear'', ''cubic'']"
    by (auto simp: resampling_of_run and_then_def return_def split: if_splits)
  from r v have "t2 = []" "s10 = stack_10m_sorted"
    "\<exists>res. data_20m = read_resampled w res 2 s20 \<and> data_60m = read_resampled w res 6 s60"
    unfolding resampling_of_run by (auto simp: and_then_def return_def)
  with v 1(1,3) x show ?case by auto
qed

lemma prepare_all_SystemExit:
  assumes "prepare_all w output_path resample = (t, Inl (SystemExit m))"
  shows "(m = File_does_not_exist \<and> \<not> path_exists w \<and> t = []) \<or>
         (m = File_does_not_have_the_correct_suffix \<and> path_exists w \<and>
            suffix_of (product_name w) \<notin> set [''.zip'', ''.SAFE''] \<and> t = []) \<or>
         (m = L2A_product_not_found \<and>
            snd (find_granule w) = Inl (SystemExit L2A_product_not_found)) \<or>
         (m = Not_a_valid_option resample \<and>
            resample \<notin> set [''nearest'', ''bilinear'', ''cubic''] \<and>
            (\<exists>a b c. Write Temp_10m a \<in> set t \<and> Write Temp_20m b \<in> set t \<and>
                     Write Temp_60m c \<in> set t))"
  using prepare_all_Inl [OF assms]
proof
  assume "save_stacks w output_path = (t, Inl (SystemExit m))"
  from save_stacks_SystemExit [OF this] show ?thesis by blast
next
  assume a: "SystemExit m = SystemExit (Not_a_valid_option resample) \<and>
          resample \<notin> set [''nearest'', ''bilinear'', ''cubic''] \<and>
          (\<exists>s10 s20 s60. save_stacks w output_path = (t, Inr (s10, s20, s60)))"
  then obtain s10 s20 s60 where "save_stacks w output_path = (t, Inr (s10, s20, s60))"
    by blast
  from save_stacks_Inr [OF this]
  have "Write Temp_10m s10 \<in> set t \<and> Write Temp_20m s20 \<in> set t \<and> Write Temp_60m s60 \<in> set t"
    by simp
  with a show ?thesis by blast
qed

lemma merge_step_run:
  "fst (merge_step w stack_10m_sorted data_20m data_60m) = [] \<and>
   (\<forall>e. snd (merge_step w stack_10m_sorted data_20m data_60m) = Inl e \<longrightarrow> e = ValueError) \<and>
   (transform_20m w \<noteq> transform_60m w \<longrightarrow>
      merge_step w stack_10m_sorted data_20m data_60m = ([], Inr None))"
  by (auto simp: merge_step_def lift_def return_def merged_stack_def concatenate_def
      split: if_splits)

lemma create_pam_xml_run:
  "create_pam_xml stack =
     (case stack of None \<Rightarrow> ([], Inl UnboundLocalError) | Some s \<Rightarrow> ([Pam_xml s], Inr ()))"
  by (simp add: create_pam_xml_def read_stack_def and_then_def raise_def return_def emit_def
      split: option.splits)

lemma export_run:
  "export n stack pyramids =
     (case stack of
        None \<Rightarrow> ([Open_w Product n], Inl UnboundLocalError)
      | Some s \<Rightarrow>
          if band s \<noteq> n then ([Open_w Product n], Inl ValueError)
          else ([Open_w Product n, Write Product s] @
                (if pyramids then [Build_overviews Product] else []), Inr ()))"
  by (simp add: export_def read_stack_def and_then_def raise_def return_def emit_def
      split: option.splits)

lemma finish_all_errors:
  assumes "finish_all w xml pyramids prepared = (t, Inl e)"
  shows "e = ValueError \<or> e = UnboundLocalError"
proof -
  obtain s10 d20 d60 where p: "prepared = (s10, d20, d60)" by (cases prepared)
  from assms show ?thesis unfolding finish_all_def p prod.case
  proof (elim and_then_Inl, goal_cases)
    case 1
    then show ?case using merge_step_run [of w s10 d20 d60] by auto
  next
    case 2
    then show ?case by (auto simp: create_pam_xml_run return_def split: if_splits option.splits)
  next
    case 3
    then show ?case by (auto simp: export_run split: option.splits if_splits)
  next
    case 4
    then show ?case by (simp add: emit_def)
  qed
qed

lemma finish_all_unaligned:
  assumes "transform_20m w \<noteq> transform_60m w"
  shows "finish_all w xml pyramids prepared =
           (if xml then [] else [Open_w Product 12], Inl UnboundLocalError)"
proof -
  obtain s10 d20 d60 where p: "prepared = (s10, d20, d60)" by (cases prepared)
  have "merge_step w s10 d20 d60 = ([], Inr None)"
    using assms merge_step_run [of w s10 d20 d60] by simp
  then show ?thesis
    by (simp add: finish_all_def p and_then_def create_pam_xml_run export_run return_def)
qed

subsection \<open>Unequal transforms\<close>

text \<open>
  C9: if the transforms computed for the resampled 20m and 60m stacks are not equal,
  \<open>processor_all\<close> never completes and never writes the merged stack to the product
  file; a run that gets as far as the merge ends in UnboundLocalError at the first read
  of the unassigned \<^verbatim>\<open>stack\<close> (in \<^verbatim>\<open>create_pam_xml\<close>, or in \<^verbatim>\<open>dst.write\<close> after
  the product file has been opened, when no XML is asked for).
\<close>

theorem unaligned_transforms_never_export:
  assumes "transform_20m w \<noteq> transform_60m w"
  shows "snd (processor_all w output_path resample xml pyramids) \<noteq> Inr () \<and>
         (\<forall>stack. Write Product stack \<notin> set (fst (processor_all w output_path resample xml pyramids))) \<and>
         (\<forall>t prepared. prepare_all w output_path resample = (t, Inr prepared) \<longrightarrow>
            processor_all w output_path resample xml pyramids =
              (t @ (if xml then [] else [Open_w Product 12]), Inl UnboundLocalError))"
proof (cases "prepare_all w output_path resample")
  case (Pair t r)
  have quiet: "\<forall>ev\<in>set t. \<not> touches_product ev"
    using prepare_all_events [of w output_path resample] Pair by simp
  then have nowrite: "Write Product stack \<notin> set t" for stack
    by (auto simp: touches_product_def)
  show ?thesis
  proof (cases r)
    case (Inl e)
    with Pair have "processor_all w output_path resample xml pyramids = (t, Inl e)"
      by (simp add: processor_all_def and_then_def)
    with Pair Inl nowrite show ?thesis by simp
  next
    case (Inr prepared)
    with Pair finish_all_unaligned [OF assms, of xml pyramids prepared]
    have "processor_all w output_path resample xml pyramids =
            (t @ (if xml then [] else [Open_w Product 12]), Inl UnboundLocalError)"
      by (simp add: processor_all_def and_then_def)
    with Pair Inr nowrite show ?thesis by simp
  qed
qed

lemma processor_all_SystemExit:
  assumes "processor_all w output_path resample xml pyramids = (t, Inl (SystemExit m))"
  shows "prepare_all w output_path resample = (t, Inl (SystemExit m))"
  using assms unfolding processor_all_def
proof (elim and_then_Inl, goal_cases)
  case 1
  then show ?case .
next
  case (2 t1 x t2)
  from finish_all_errors [OF 2(2)] show ?case by simp
qed

lemma processor_rgbn_SystemExit:
  assumes "processor_rgbn w output_path xml pyramids = (t, Inl (SystemExit m))"
  shows "(m = File_does_not_exist \<and> \<not> path_exists w \<and> t = []) \<or>
         (m = File_does_not_have_the_correct_suffix \<and> path_exists w \<and>
            suffix_of (product_name w) \<notin> set [''.zip'', ''.SAFE''] \<and> t = []) \<or>
         (m = L2A_product_not_found \<and>
            snd (find_granule w) = Inl (SystemExit L2A_product_not_found))"
  using assms unfolding processor_rgbn_def
proof (elim and_then_Inl, goal_cases)
  case 1
  then show ?case by (simp add: check_path_validity_cases split: if_splits)
next
  case 2
  then show ?case by (simp add: output_folder_run)
next
  case 3
  then show ?case using find_granule_run [of w] by auto
next
  case 4
  then show ?case using sort_tier_run [of w tags_10m "files_10m w" sorted_list_10m] by auto
next
  case 5
  then show ?case by (simp add: create_pam_xml_run return_def split: if_splits)
next
  case 6
  then show ?case by (simp add: export_run split: if_splits)
qed

subsection \<open>The L2A guard\<close>

text \<open>
  C8 (as amended): where pathlib matches names case-sensitively, every granule that
  \<^verbatim>\<open>rglob("*L2A*")\<close> yields has \<^verbatim>\<open>L2A\<close> in its name, and neither \<open>processor_all\<close> nor
  \<open>processor_rgbn\<close> raises the SystemExit "L2A product not found".
\<close>

theorem granule_guard_case_sensitive:
  assumes "case_sensitive w"
  shows "(\<forall>granule\<in>set (rglob w ''*L2A*''). contains ''L2A'' granule) \<and>
         snd (processor_all w output_path resample xml pyramids) \<noteq>
           Inl (SystemExit L2A_product_not_found) \<and>
         snd (processor_rgbn w output_path xml pyramids) \<noteq>
           Inl (SystemExit L2A_product_not_found)"
proof -
  have guard: "snd (find_granule w) \<noteq> Inl (SystemExit L2A_product_not_found)"
    using assms by (rule find_granule_guard)
  have "snd (processor_all w output_path resample xml pyramids) \<noteq>
          Inl (SystemExit L2A_product_not_found)"
  proof
    assume "snd (processor_all w output_path resample xml pyramids) =
              Inl (SystemExit L2A_product_not_found)"
    then obtain t where "processor_all w output_path resample xml pyramids =
                           (t, Inl (SystemExit L2A_product_not_found))"
      by (cases "processor_all w output_path resample xml pyramids") simp
    from prepare_all_SystemExit [OF processor_all_SystemExit [OF this]] guard
    show False by simp
  qed
  moreover have "snd (processor_rgbn w output_path xml pyramids) \<noteq>
          Inl (SystemExit L2A_product_not_found)"
  proof
    assume "snd (processor_rgbn w output_path xml pyramids) =
              Inl (SystemExit L2A_product_not_found)"
    then obtain t where "processor_rgbn w output_path xml pyramids =
                           (t, Inl (SystemExit L2A_product_not_found))"
      by (cases "processor_rgbn w output_path xml pyramids") simp
    from processor_rgbn_SystemExit [OF this] guard
    show False by simp
  qed
  ultimately show ?thesis
    using assms rglob_L2A_contains by blast
qed


subsection \<open>Hard failures\<close>


lemma sort_tier_Inr:
  assumes "sort_tier w tags files sorted_list = (t, Inr stack_sorted)"
  shows "\<exists>stack_array.
           asarray (snd (read_bands tags files)) = Inr stack_array \<and>
           stack_sort (numpy_generation w) stack_array (fst (read_bands tags files))
             sorted_list = Inr stack_sorted"
  using assms
  by (auto simp: sort_tier_def lift_def split: prod.splits sum.splits)

subsection \<open>The canonical lists of the tiers\<close>

text \<open>
  C5: in \<open>processor_all\<close> the 10m stack is sorted against 02, 03, 04, 08, the 20m stack
  against 05, 06, 07, 11, 12, 8A and the 60m stack against 01, 09; in \<open>processor_rgbn\<close>
  the 10m stack is sorted against 02, 03, 04, 08, and the result is what is written.
\<close>

theorem tiers_sorted_against_canonical_lists:
  "(prepare_all w output_path resample = (t, Inr (stack_10m_sorted, data_20m, data_60m)) \<longrightarrow>
      (\<exists>stack_10m stack_20m stack_60m stack_20m_sorted stack_60m_sorted res.
         asarray (snd (read_bands tags_10m (files_10m w))) = Inr stack_10m \<and>
         stack_sort (numpy_generation w) stack_10m (fst (read_bands tags_10m (files_10m w)))
           [''02'', ''03'', ''04'', ''08''] = Inr stack_10m_sorted \<and>
         asarray (snd (read_bands tags_20m (files_20m w))) = Inr stack_20m \<and>
         stack_sort (numpy_generation w) stack_20m (fst (read_bands tags_20m (files_20m w)))
           [''05'', ''06'', ''07'', ''11'', ''12'', ''8A''] = Inr stack_20m_sorted \<and>
         asarray (snd (read_bands tags_60m (files_60m w))) = Inr stack_60m \<and>
         stack_sort (numpy_generation w) stack_60m (fst (read_bands tags_60m (files_60m w)))
           [''01'', ''09''] = Inr stack_60m_sorted \<and>
         data_20m = read_resampled w res 2 stack_20m_sorted \<and>
         data_60m = read_resampled w res 6 stack_60m_sorted)) \<and>
   (processor_rgbn w output_path xml pyramids = (t', Inr ()) \<longrightarrow>
      (\<exists>stack_10m stack_10m_sorted.
         asarray (snd (read_bands tags_10m (files_10m w))) = Inr stack_10m \<and>
         stack_sort (numpy_generation w) stack_10m (fst (read_bands tags_10m (files_10m w)))
           [''02'', ''03'', ''04'', ''08''] = Inr stack_10m_sorted \<and>
         Write Product stack_10m_sorted \<in> set t'))"
proof (intro conjI impI)
  assume "prepare_all w output_path resample = (t, Inr (stack_10m_sorted, data_20m, data_60m))"
  from prepare_all_Inr [OF this] obtain stack_20m_sorted stack_60m_sorted res where
    saved: "save_stacks w output_path =
              (t, Inr (stack_10m_sorted, stack_20m_sorted, stack_60m_sorted))"
    and d: "data_20m = read_resampled w res 2 stack_20m_sorted"
           "data_60m = read_resampled w res 6 stack_60m_sorted"
    by blast
  from save_stacks_Inr [OF saved] have
    s: "sort_tier w tags_10m (files_10m w) sorted_list_10m = ([], Inr stack_10m_sorted)"
       "sort_tier w tags_20m (files_20m w) sorted_list_20m = ([], Inr stack_20m_sorted)"
       "sort_tier w tags_60m (files_60m w) sorted_list_60m = ([], Inr stack_60m_sorted)"
    by simp_all
  from sort_tier_Inr [OF s(1)] sort_tier_Inr [OF s(2)] sort_tier_Inr [OF s(3)] d
  show "\<exists>stack_10m stack_20m stack_60m stack_20m_sorted stack_60m_sorted res.
         asarray (snd (read_bands tags_10m (files_10m w))) = Inr stack_10m \<and>
         stack_sort (numpy_generation w) stack_10m (fst (read_bands tags_10m (files_10m w)))
           [''02'', ''03'', ''04'', ''08''] = Inr stack_10m_sorted \<and>
         asarray (snd (read_bands tags_20m (files_20m w))) = Inr stack_20m \<and>
         stack_sort (numpy_generation w) stack_20m (fst (read_bands tags_20m (files_20m w)))
           [''05'', ''06'', ''07'', ''11'', ''12'', ''8A''] = Inr stack_20m_sorted \<and>
         asarray (snd (read_bands tags_60m (files_60m w))) = Inr stack_60m \<and>
         stack_sort (numpy_generation w) stack_60m (fst (read_bands tags_60m (files_60m w)))
           [''01'', ''09''] = Inr stack_60m_sorted \<and>
         data_20m = read_resampled w res 2 stack_20m_sorted \<and>
         data_60m = read_resampled w res 6 stack_60m_sorted"
    unfolding sorted_list_10m_def sorted_list_20m_def sorted_list_60m_def by blast
next
  assume "processor_rgbn w output_path xml pyramids = (t', Inr ())"
  then show "\<exists>stack_10m stack_10m_sorted.
         asarray (snd (read_bands tags_10m (files_10m w))) = Inr stack_10m \<and>
         stack_sort (numpy_generation w) stack_10m (fst (read_bands tags_10m (files_10m w)))
           [''02'', ''03'', ''04'', ''08''] = Inr stack_10m_sorted \<and>
         Write Product stack_10m_sorted \<in> set t'"
    unfolding processor_rgbn_def
  proof (elim and_then_Inr, goal_cases)
    case (1 t1 x1 t2 t3 x3 t4 t5 granule t6 t7 s10 t8 t9 x9 t10)
    have "Write Product s10 \<in> set t10"
      using \<open>export 4 (Some s10) pyramids = (t10, Inr ())\<close>
      by (auto simp: export_run split: if_splits)
    then have "Write Product s10 \<in> set t'" using 1 by simp
    with sort_tier_Inr [OF \<open>sort_tier w tags_10m (files_10m w) sorted_list_10m = (t7, Inr s10)\<close>]
    show ?case unfolding sorted_list_10m_def by blast
  qed
qed

subsection \<open>The demonstration worlds\<close>

lemma demo_save_stacks:
  "save_stacks demo_world None =
     (demo_saved,
      Inr (flat_stack 6 [2, 3, 4, 8], flat_stack 3 [5, 6, 7, 11, 12, 138], flat_stack 1 [1, 9]))"
  by code_simp

lemma demo_read_bands_10m:
  "read_bands tags_10m (files_10m demo_world) =
     ([''08'', ''02'', ''04'', ''03''], [flat 6 8, flat 6 2, flat 6 4, flat 6 3])"
  by code_simp

text \<open>A complete run on the demonstration product.\<close>

lemma demo_full_run:
  "processor_all demo_world None ''nearest'' True True =
     (demo_saved @
      [Pam_xml (flat_stack 6 [1, 2, 3, 4, 5, 6, 7, 8, 138, 9, 11, 12]),
       Open_w Product 12,
       Write Product (flat_stack 6 [1, 2, 3, 4, 5, 6, 7, 8, 138, 9, 11, 12]),
       Build_overviews Product, Rmtree TEMP],
      Inr ())"
  by code_simp

lemma demo_prepare_all:
  "prepare_all demo_world None ''cubic'' =
     (demo_saved,
      Inr (flat_stack 6 [2, 3, 4, 8],
           read_resampled demo_world cubic 2 (flat_stack 3 [5, 6, 7, 11, 12, 138]),
           read_resampled demo_world cubic 6 (flat_stack 1 [1, 9])))"
  by (simp add: prepare_all_def demo_save_stacks and_then_def resampling_of_run return_def)

lemma demo_asarray_10m:
  "asarray [flat 6 8, flat 6 2, flat 6 4, flat 6 3] = Inr (flat_stack 6 [8, 2, 4, 3])"
  by (simp add: asarray_def flat_def flat_stack_def)

lemma unaligned_prepare_all:
  "prepare_all unaligned_world None ''nearest'' =
     (demo_saved,
      Inr (flat_stack 6 [2, 3, 4, 8],
           read_resampled unaligned_world nearest 2 (flat_stack 3 [5, 6, 7, 11, 12, 138]),
           read_resampled unaligned_world nearest 6 (flat_stack 1 [1, 9])))"
proof -
  have "save_stacks unaligned_world None =
     (demo_saved,
      Inr (flat_stack 6 [2, 3, 4, 8], flat_stack 3 [5, 6, 7, 11, 12, 138], flat_stack 1 [1, 9]))"
    by code_simp
  then show ?thesis
    by (simp add: prepare_all_def and_then_def resampling_of_run return_def)
qed


lemma windows_rglob:
  "rglob windows_world ''*L2A*'' = [''l2a_t34sgh_a039312_20230101t092401'']"
  by code_simp


lemma windows_run_rgbn:
  "processor_rgbn windows_world None True True =
     ([Mkdir GTIFF_PRODUCT], Inl (SystemExit L2A_product_not_found))"
  by code_simp

lemma demo_run_rgbn:
  "processor_rgbn demo_world None False False =
     ([Mkdir GTIFF_PRODUCT, Open_w Product 4, Write Product (flat_stack 6 [2, 3, 4, 8])],
      Inr ())"
  by code_simp

text \<open>C5 on the demonstration product.\<close>

theorem tiers_sorted_against_canonical_lists_witness:
  "prepare_all demo_world None ''cubic'' =
     (demo_saved,
      Inr (flat_stack 6 [2, 3, 4, 8],
           read_resampled demo_world cubic 2 (flat_stack 3 [5, 6, 7, 11, 12, 138]),
           read_resampled demo_world cubic 6 (flat_stack 1 [1, 9]))) \<and>
   processor_rgbn demo_world None False False =
     ([Mkdir GTIFF_PRODUCT, Open_w Product 4, Write Product (flat_stack 6 [2, 3, 4, 8])],
      Inr ()) \<and>
   stack_sort NumPy2 (flat_stack 6 [8, 2, 4, 3]) [''08'', ''02'', ''04'', ''03'']
     [''02'', ''03'', ''04'', ''08''] = Inr (flat_stack 6 [2, 3, 4, 8])"
proof -
  from tiers_sorted_against_canonical_lists
    [of demo_world None "''cubic''" demo_saved "flat_stack 6 [2, 3, 4, 8]"
        "read_resampled demo_world cubic 2 (flat_stack 3 [5, 6, 7, 11, 12, 138])"
        "read_resampled demo_world cubic 6 (flat_stack 1 [1, 9])" False False
        "[Mkdir GTIFF_PRODUCT, Open_w Product 4, Write Product (flat_stack 6 [2, 3, 4, 8])]"]
    demo_prepare_all
  obtain stack_10m where
    "asarray (snd (read_bands tags_10m (files_10m demo_world))) = Inr stack_10m"
    "stack_sort (numpy_generation demo_world) stack_10m
       (fst (read_bands tags_10m (files_10m demo_world))) [''02'', ''03'', ''04'', ''08''] =
     Inr (flat_stack 6 [2, 3, 4, 8])"
    by blast
  then have "stack_sort NumPy2 (flat_stack 6 [8, 2, 4, 3]) [''08'', ''02'', ''04'', ''03'']
               [''02'', ''03'', ''04'', ''08''] = Inr (flat_stack 6 [2, 3, 4, 8])"
    unfolding demo_read_bands_10m fst_conv snd_conv demo_asarray_10m
    by (simp add: demo_world_def)
  with demo_prepare_all demo_run_rgbn show ?thesis by simp
qed

text \<open>
  C9 on the product with unequal transforms: without XML the product file is opened
  before the failure, with XML nothing of the product is touched.
\<close>

theorem unaligned_transforms_never_export_witness:
  "transform_20m unaligned_world \<noteq> transform_60m unaligned_world \<and>
   processor_all unaligned_world None ''nearest'' False True =
     (demo_saved @ [Open_w Product 12], Inl UnboundLocalError) \<and>
   processor_all unaligned_world None ''nearest'' True True =
     (demo_saved, Inl UnboundLocalError)"
proof -
  have ne: "transform_20m unaligned_world \<noteq> transform_60m unaligned_world"
    by (simp add: unaligned_world_def demo_world_def)
  from unaligned_transforms_never_export [OF ne, of None "''nearest''" False True]
    unaligned_transforms_never_export [OF ne, of None "''nearest''" True True]
    unaligned_prepare_all ne
  show ?thesis by simp
qed

text \<open>C8 on the demonstration product.\<close>

theorem granule_guard_case_sensitive_witness:
  "case_sensitive demo_world \<and>
   contains ''L2A'' ''L2A_T34SGH_A039312_20230101T092401'' \<and>
   snd (processor_all demo_world None ''nearest'' True True) \<noteq>
     Inl (SystemExit L2A_product_not_found) \<and>
   snd (processor_rgbn demo_world None False False) \<noteq>
     Inl (SystemExit L2A_product_not_found)"
proof -
  have cs: "case_sensitive demo_world" by (simp add: demo_world_def)
  have "rglob demo_world ''*L2A*'' = [''L2A_T34SGH_A039312_20230101T092401'']"
    by code_simp
  with granule_guard_case_sensitive [OF cs, of None "''nearest''" True True]
    granule_guard_case_sensitive [OF cs, of None "''nearest''" False False] cs
  show ?thesis by simp
qed

text \<open>
  Where pathlib ignores case, a granule folder named in lower case is found by
  \<^verbatim>\<open>rglob\<close> and fails the test of its name: the branch is reached.
\<close>

theorem granule_guard_case_sensitive_counterexample:
  "\<not> case_sensitive windows_world \<and>
   rglob windows_world ''*L2A*'' = [''l2a_t34sgh_a039312_20230101t092401''] \<and>
   \<not> contains ''L2A'' ''l2a_t34sgh_a039312_20230101t092401'' \<and>
   find_granule windows_world = ([], Inl (SystemExit L2A_product_not_found)) \<and>
   processor_rgbn windows_world None True True =
     ([Mkdir GTIFF_PRODUCT], Inl (SystemExit L2A_product_not_found))"
proof -
  have "\<not> contains ''L2A'' ''l2a_t34sgh_a039312_20230101t092401''" by simp
  then show ?thesis
    using windows_rglob windows_run_rgbn
    by (simp add: find_granule_def raise_def windows_world_def)
qed



end
